theory Spec2Isabelle
  imports
    Complex_Main
    "HOL-Library.Word"
    "HOL-Library.AList"
    "HOL-Library.Char_ord"
    "HOL-Library.List_Lexorder"
begin

section \<open>Python values shared by the modules\<close>

text \<open>
  The repository is a set of Python scripts. Exceptions are values of \<open>py_error\<close>;
  a function that may raise returns \<open>py_error + 'a\<close> with the exception on the left.
\<close>

datatype py_error =
    AssertionError
  | ValueError
  | NameError
  | IndexError
  | KeyError
  | ZeroDivisionError
  | OverflowError
  | RuntimeError

text \<open>\<^verbatim>\<open>s.split(c)\<close> for a one-character separator: one more piece than separators.\<close>

fun split_on :: "char \<Rightarrow> string \<Rightarrow> string list" where
  "split_on c [] = [[]]"
| "split_on c (x # xs) =
     (if x = c then [] # split_on c xs
      else (case split_on c xs of [] \<Rightarrow> [[x]] | p # ps \<Rightarrow> (x # p) # ps))"

text \<open>\<^verbatim>\<open>sep.join(parts)\<close>.\<close>

fun join_with :: "string \<Rightarrow> string list \<Rightarrow> string" where
  "join_with sep [] = []"
| "join_with sep [p] = p"
| "join_with sep (p # q # ps) = p @ sep @ join_with sep (q # ps)"

text \<open>
  ASCII decimal digits. \<^verbatim>\<open>str.isdigit\<close> and \<^verbatim>\<open>int\<close> also accept the decimal digits of
  other scripts; a \<open>char\<close> is a byte here, so only the ASCII ones are modelled.
\<close>

definition is_digit_char :: "char \<Rightarrow> bool" where
  "is_digit_char c \<longleftrightarrow> 48 \<le> (of_char c :: nat) \<and> (of_char c :: nat) \<le> 57"

definition isdigit :: "string \<Rightarrow> bool" where
  "isdigit s \<longleftrightarrow> s \<noteq> [] \<and> list_all is_digit_char s"

section \<open>float64 arithmetic\<close>

text \<open>
  A finite \<^verbatim>\<open>float64\<close> is the rational it stands for. An operation on floats returns
  the exact result rounded to the nearest float, ties to the even significand:
  \<open>fl64\<close> is that rounding, with 53 bits of significand and the subnormal spacing
  \<open>2 ^ -1074\<close> at the bottom. A result that rounds to \<open>2 ^ 1024\<close> or beyond is an
  infinity in the source; \<open>overflows\<close> says so, and \<open>fl64\<close> is used only where the
  result is finite.
\<close>

function bit_length :: "int \<Rightarrow> int" where
  "bit_length n = (if n \<le> 0 then 0 else 1 + bit_length (n div 2))"
  by pat_completeness auto

termination bit_length
  by (relation "measure nat") auto

declare bit_length.simps [simp del]

definition pow2 :: "int \<Rightarrow> rat" where
  "pow2 e = (if 0 \<le> e then 2 ^ nat e else 1 / 2 ^ nat (- e))"

text \<open>For \<open>x > 0\<close>, the exponent \<open>e\<close> with \<open>2 ^ e \<le> x < 2 ^ (e + 1)\<close>.\<close>

definition ilog2 :: "rat \<Rightarrow> int" where
  "ilog2 x =
     (if 1 \<le> x then bit_length \<lfloor>x\<rfloor> - 1 else - bit_length (\<lceil>1 / x\<rceil> - 1))"

definition round_half_even :: "rat \<Rightarrow> int" where
  "round_half_even x =
     (if x - of_int \<lfloor>x\<rfloor> < 1 / 2 then \<lfloor>x\<rfloor>
      else if 1 / 2 < x - of_int \<lfloor>x\<rfloor> then \<lfloor>x\<rfloor> + 1
      else if even \<lfloor>x\<rfloor> then \<lfloor>x\<rfloor>
      else \<lfloor>x\<rfloor> + 1)"

text \<open>The exponent of the last place of the floats around \<open>a > 0\<close>.\<close>

definition ulp_exp :: "rat \<Rightarrow> int" where
  "ulp_exp a = max (ilog2 a - 52) (- 1074)"

definition fl64 :: "rat \<Rightarrow> rat" where
  "fl64 x =
     (if x = 0 then 0
      else sgn x * of_int (round_half_even (\<bar>x\<bar> / pow2 (ulp_exp \<bar>x\<bar>))) * pow2 (ulp_exp \<bar>x\<bar>))"

definition overflows :: "rat \<Rightarrow> bool" where
  "overflows x \<longleftrightarrow> 2 ^ 1024 \<le> \<bar>fl64 x\<bar>"

section \<open>Paths (pathlib)\<close>

text \<open>
  A path is the list of its components; \<^verbatim>\<open>str(p)\<close> joins them with a slash. The name of
  a path is its last component. \<^verbatim>\<open>suffix\<close> and \<^verbatim>\<open>stem\<close> cut the name at its last dot,
  unless that dot is the first or the last character of the name.
\<close>

type_synonym path = "string list"

definition path_str :: "path \<Rightarrow> string" where
  "path_str p = join_with ''/'' p"

definition path_name :: "path \<Rightarrow> string" where
  "path_name p = (if p = [] then [] else last p)"

text \<open>\<^verbatim>\<open>name.rfind('.')\<close>, with \<open>None\<close> for \<open>-1\<close>.\<close>

definition rfind_dot :: "string \<Rightarrow> nat option" where
  "rfind_dot name =
     (case filter (\<lambda>i. name ! i = CHR ''.'') (rev [0 ..< length name]) of
        [] \<Rightarrow> None
      | i # _ \<Rightarrow> Some i)"

definition path_suffix :: "path \<Rightarrow> string" where
  "path_suffix p =
     (case rfind_dot (path_name p) of
        None \<Rightarrow> []
      | Some i \<Rightarrow> if 0 < i \<and> i < length (path_name p) - 1 then drop i (path_name p) else [])"

definition path_stem :: "path \<Rightarrow> string" where
  "path_stem p =
     (case rfind_dot (path_name p) of
        None \<Rightarrow> path_name p
      | Some i \<Rightarrow>
          if 0 < i \<and> i < length (path_name p) - 1 then take i (path_name p) else path_name p)"

text \<open>\<^verbatim>\<open>str.lower\<close> on ASCII letters.\<close>

definition lower_char :: "char \<Rightarrow> char" where
  "lower_char c =
     (case map_of (zip ''ABCDEFGHIJKLMNOPQRSTUVWXYZ'' ''abcdefghijklmnopqrstuvwxyz'') c of
        None \<Rightarrow> c
      | Some l \<Rightarrow> l)"

definition lower :: "string \<Rightarrow> string" where
  "lower s = map lower_char s"

definition VALID_EXTS :: "string list" where
  "VALID_EXTS = [''.jpg'', ''.jpeg'', ''.png'', ''.bmp'', ''.tif'', ''.tiff'']"

text \<open>\<^verbatim>\<open>p.relative_to(base)\<close>\<close>

definition relative_to :: "path \<Rightarrow> path \<Rightarrow> py_error + path" where
  "relative_to p base =
     (if take (length base) p = base then Inr (drop (length base) p) else Inl ValueError)"

text \<open>
  A directory as \<^verbatim>\<open>rglob("*")\<close> lists it: every entry below it, with whether it is a
  regular file.
\<close>

record directory =
  dir_exists :: bool
  rglob :: "(path \<times> bool) list"

text \<open>
  \<^verbatim>\<open>[p for p in folder.rglob("*") if p.suffix.lower() in VALID_EXTS and p.is_file()]\<close>
\<close>

definition image_entries :: "directory \<Rightarrow> path list" where
  "image_entries d =
     map fst (filter (\<lambda>e. lower (path_suffix (fst e)) \<in> set VALID_EXTS \<and> snd e) (rglob d))"

section \<open>Output files of the segmentation runner (CCNet/tools/run\_inference.py)\<close>

text \<open>\<^verbatim>\<open>list_images\<close>: the image files below the folder, sorted as paths.\<close>

definition list_images :: "directory \<Rightarrow> path list" where
  "list_images folder = sort (image_entries folder)"

text \<open>
  The files one pass of the loop of \<^verbatim>\<open>run_inference\<close> writes for \<open>image_path\<close>: the
  mask always, the overlay under \<^verbatim>\<open>--save-overlay\<close>, the labeled image under
  \<^verbatim>\<open>--save-labeled\<close>. \<^verbatim>\<open>output_dir / name\<close> appends one component.
\<close>

definition output_paths :: "bool \<Rightarrow> bool \<Rightarrow> path \<Rightarrow> path \<Rightarrow> path \<Rightarrow> py_error + path list" where
  "output_paths save_overlay save_labeled image_dir output_dir image_path =
     (case relative_to image_path image_dir of
        Inl e \<Rightarrow> Inl e
      | Inr rel_path \<Rightarrow>
          Inr ([output_dir @ [path_stem rel_path @ ''_mask.png'']] @
               (if save_overlay then [output_dir @ [path_stem rel_path @ ''_overlay.png'']]
                else []) @
               (if save_labeled then [output_dir @ [path_stem rel_path @ ''_labeled.png'']]
                else [])))"

text \<open>
  The paths the specification describes, for comparison: below the output directory,
  the subdirectories of the image relative to the image root, then the file name.
\<close>

definition mirrored_path :: "path \<Rightarrow> path \<Rightarrow> path \<Rightarrow> string \<Rightarrow> py_error + path" where
  "mirrored_path image_dir output_dir image_path tail =
     (case relative_to image_path image_dir of
        Inl e \<Rightarrow> Inl e
      | Inr rel_path \<Rightarrow> Inr (output_dir @ butlast rel_path @ [path_stem rel_path @ tail]))"

section \<open>Checkpoint key remapping (CCNet/utils/pyt\_utils.py, load\_model)\<close>

type_synonym key = string

record tensor =
  shape :: "nat list"
  payload :: "int list"

text \<open>\<^verbatim>\<open>k in model_state and model_state[k].shape == v.shape\<close>\<close>

definition fits :: "(key \<rightharpoonup> tensor) \<Rightarrow> key \<Rightarrow> tensor \<Rightarrow> bool" where
  "fits model_state k v =
     (case model_state k of None \<Rightarrow> False | Some t \<Rightarrow> shape t = shape v)"

definition bn_names :: "string list" where
  "bn_names = [''bn1'', ''bn2'', ''bn3'']"

definition bn_params :: "string list" where
  "bn_params = [''weight'', ''bias'', ''running_mean'', ''running_var'', ''num_batches_tracked'']"

text \<open>\<^verbatim>\<open>'.'.join(parts[:i+1] + ['0'] + parts[i+1:])\<close>\<close>

definition insert_zero :: "string list \<Rightarrow> nat \<Rightarrow> key" where
  "insert_zero parts i = join_with ''.'' (take (i + 1) parts @ [''0''] @ drop (i + 1) parts)"

text \<open>
  One of the two pattern blocks of the inner loop; \<open>part_ok\<close> is the test on
  \<^verbatim>\<open>part\<close> (\<^verbatim>\<open>part in ['bn1','bn2','bn3']\<close> or \<^verbatim>\<open>part.isdigit()\<close>). \<open>Some new_key\<close> is the
  \<^verbatim>\<open>break\<close> with \<^verbatim>\<open>remapped = True\<close>.
\<close>

definition try_pattern ::
  "bool \<Rightarrow> (key \<rightharpoonup> tensor) \<Rightarrow> tensor \<Rightarrow> string list \<Rightarrow> nat \<Rightarrow> key option" where
  "try_pattern part_ok model_state v parts i =
     (if part_ok \<and> i + 1 < length parts then
        (if parts ! (i + 1) \<in> set bn_params then
           (if fits model_state (insert_zero parts i) v then Some (insert_zero parts i)
            else None)
         else None)
      else None)"

text \<open>\<^verbatim>\<open>for i, part in enumerate(parts)\<close>, over the indices still to visit.\<close>

fun remap_scan ::
  "(key \<rightharpoonup> tensor) \<Rightarrow> tensor \<Rightarrow> string list \<Rightarrow> nat list \<Rightarrow> key option" where
  "remap_scan model_state v parts [] = None"
| "remap_scan model_state v parts (i # rest) =
     (case try_pattern (parts ! i \<in> set bn_names) model_state v parts i of
        Some new_key \<Rightarrow> Some new_key
      | None \<Rightarrow>
          (case try_pattern (isdigit (parts ! i)) model_state v parts i of
             Some new_key \<Rightarrow> Some new_key
           | None \<Rightarrow> remap_scan model_state v parts rest))"

text \<open>The key under which the body of the outer loop stores \<open>v\<close>.\<close>

definition remap_key :: "(key \<rightharpoonup> tensor) \<Rightarrow> key \<Rightarrow> tensor \<Rightarrow> key" where
  "remap_key model_state k v =
     (if fits model_state k v then k
      else (case remap_scan model_state v (split_on CHR ''.'' k)
                   [0 ..< length (split_on CHR ''.'' k)] of
              Some new_key \<Rightarrow> new_key
            | None \<Rightarrow> k))"

text \<open>
  \<^verbatim>\<open>remapped_state_dict[...] = v\<close> on an \<^verbatim>\<open>OrderedDict\<close>: an existing key keeps its
  place and gets the new value, a new key goes to the end.
\<close>

definition remap_entry ::
  "(key \<rightharpoonup> tensor) \<Rightarrow> (key \<times> tensor) list \<Rightarrow> key \<times> tensor \<Rightarrow> (key \<times> tensor) list" where
  "remap_entry model_state remapped kv =
     AList.update (remap_key model_state (fst kv) (snd kv)) (snd kv) remapped"

definition remap_state_dict ::
  "(key \<rightharpoonup> tensor) \<Rightarrow> (key \<times> tensor) list \<Rightarrow> (key \<times> tensor) list" where
  "remap_state_dict model_state state_dict = foldl (remap_entry model_state) [] state_dict"

text \<open>
  The claim's wording, for comparison with the loop: the rewrites of a key, in the order
  of the segment they follow (rule (a) before rule (b) at one segment), and the first of
  them that the model holds with an equal shape.
\<close>

definition rewrites_at :: "string list \<Rightarrow> nat \<Rightarrow> key list" where
  "rewrites_at parts i =
     (if parts ! i \<in> set bn_names \<and> i + 1 < length parts \<and> parts ! (i + 1) \<in> set bn_params
      then [insert_zero parts i] else []) @
     (if isdigit (parts ! i) \<and> i + 1 < length parts \<and> parts ! (i + 1) \<in> set bn_params
      then [insert_zero parts i] else [])"

definition spec_rewrites :: "key \<Rightarrow> key list" where
  "spec_rewrites k =
     concat (map (rewrites_at (split_on CHR ''.'' k)) [0 ..< length (split_on CHR ''.'' k)])"

definition spec_target :: "(key \<rightharpoonup> tensor) \<Rightarrow> key \<Rightarrow> tensor \<Rightarrow> key" where
  "spec_target model_state k v =
     (case find (\<lambda>new_key. fits model_state new_key v) (spec_rewrites k) of
        Some new_key \<Rightarrow> new_key
      | None \<Rightarrow> k)"

text \<open>
  The key an entry of the checkpoint is stored under, in the claim's wording: its own key
  when the model holds that key with an equal shape, the first fitting rewrite
  otherwise, and its own key when no rewrite fits.
\<close>

definition loaded_key :: "(key \<rightharpoonup> tensor) \<Rightarrow> key \<times> tensor \<Rightarrow> key" where
  "loaded_key model_state kv =
     (if fits model_state (fst kv) (snd kv) then fst kv
      else spec_target model_state (fst kv) (snd kv))"

section \<open>Device lists (CCNet/utils/pyt\_utils.py, parse\_devices)\<close>

text \<open>
  \<^verbatim>\<open>int(s)\<close> on a string: surrounding white space (space, tab, line feed, vertical tab,
  form feed, carriage return) is dropped, one sign may lead, and the digits may be
  grouped by single underscores. Anything else raises \<^verbatim>\<open>ValueError\<close>.
\<close>

definition is_space_char :: "char \<Rightarrow> bool" where
  "is_space_char c \<longleftrightarrow> (of_char c :: nat) \<in> set [9, 10, 11, 12, 13, 32]"

definition strip :: "string \<Rightarrow> string" where
  "strip s = rev (dropWhile is_space_char (rev (dropWhile is_space_char s)))"

definition digit_val :: "char \<Rightarrow> nat" where
  "digit_val c = of_char c - 48"

fun digits_ok :: "string \<Rightarrow> bool" where
  "digits_ok [] = False"
| "digits_ok [c] = is_digit_char c"
| "digits_ok (c # d # cs) =
     (is_digit_char c \<and> (if d = CHR ''_'' then digits_ok cs else digits_ok (d # cs)))"

definition digits_value :: "string \<Rightarrow> nat" where
  "digits_value s = foldl (\<lambda>acc c. 10 * acc + digit_val c) 0 (filter (\<lambda>c. c \<noteq> CHR ''_'') s)"

definition unsigned_int :: "string \<Rightarrow> py_error + int" where
  "unsigned_int s = (if digits_ok s then Inr (int (digits_value s)) else Inl ValueError)"

definition py_int :: "string \<Rightarrow> py_error + int" where
  "py_int s =
     (case strip s of
        [] \<Rightarrow> Inl ValueError
      | c # cs \<Rightarrow>
          if c = CHR ''-'' then
            (case unsigned_int cs of Inl e \<Rightarrow> Inl e | Inr n \<Rightarrow> Inr (- n))
          else if c = CHR ''+'' then unsigned_int cs
          else unsigned_int (c # cs))"

text \<open>
  The body of the loop over \<^verbatim>\<open>input_devices.split(',')\<close>: the devices one piece
  appends, or the exception it raises. \<open>device_count\<close> is
  \<^verbatim>\<open>torch.cuda.device_count()\<close>.
\<close>

definition parse_device_piece :: "nat \<Rightarrow> string \<Rightarrow> py_error + int list" where
  "parse_device_piece device_count d =
     (if CHR ''-'' \<in> set d then
        (let start_device = split_on CHR ''-'' d ! 0;
             end_device = split_on CHR ''-'' d ! 1
         in if start_device = [] then Inl AssertionError
            else if end_device = [] then Inl AssertionError
            else
              (case py_int start_device of
                 Inl e \<Rightarrow> Inl e
               | Inr a \<Rightarrow>
                   (case py_int end_device of
                      Inl e \<Rightarrow> Inl e
                    | Inr b \<Rightarrow>
                        if \<not> a < b then Inl AssertionError
                        else if \<not> b < int device_count then Inl AssertionError
                        else Inr [a .. b])))
      else
        (case py_int d of
           Inl e \<Rightarrow> Inl e
         | Inr device \<Rightarrow>
             if \<not> device < int device_count then Inl AssertionError else Inr [device]))"

fun parse_devices_loop :: "nat \<Rightarrow> int list \<Rightarrow> string list \<Rightarrow> py_error + int list" where
  "parse_devices_loop device_count devices [] = Inr devices"
| "parse_devices_loop device_count devices (d # ds) =
     (case parse_device_piece device_count d of
        Inl e \<Rightarrow> Inl e
      | Inr new \<Rightarrow> parse_devices_loop device_count (devices @ new) ds)"

definition endswith_star :: "string \<Rightarrow> bool" where
  "endswith_star s \<longleftrightarrow> s \<noteq> [] \<and> last s = CHR ''*''"

definition parse_devices :: "nat \<Rightarrow> string \<Rightarrow> py_error + int list" where
  "parse_devices device_count input_devices =
     (if endswith_star input_devices then Inr (map int [0 ..< device_count])
      else parse_devices_loop device_count [] (split_on CHR '','' input_devices))"

text \<open>
  The strings the claim speaks of: a comma-separated list of decimal integers and ranges
  \<open>a-b\<close>, written out from its items.
\<close>

datatype device_item = Single nat | Span nat nat

definition digit_char :: "nat \<Rightarrow> char" where
  "digit_char n = ''0123456789'' ! n"

fun dec :: "nat \<Rightarrow> string" where
  "dec n = (if n < 10 then [digit_char n] else dec (n div 10) @ [digit_char (n mod 10)])"

declare dec.simps [simp del]

fun render_item :: "device_item \<Rightarrow> string" where
  "render_item (Single n) = dec n"
| "render_item (Span a b) = dec a @ ''-'' @ dec b"

definition render_devices :: "device_item list \<Rightarrow> string" where
  "render_devices items = join_with '','' (map render_item items)"

fun item_devices :: "device_item \<Rightarrow> int list" where
  "item_devices (Single n) = [int n]"
| "item_devices (Span a b) = [int a .. int b]"

fun item_ok :: "nat \<Rightarrow> device_item \<Rightarrow> bool" where
  "item_ok device_count (Single n) \<longleftrightarrow> n < device_count"
| "item_ok device_count (Span a b) \<longleftrightarrow> a < b \<and> b < device_count"

text \<open>
  The claim constrains the ranges only (\<open>a < b\<close> and \<open>b\<close> below the device count);
  \<open>range_ok\<close> is that condition, \<open>item_ok\<close> also bounds the single integers as the
  loop does.
\<close>

fun range_ok :: "nat \<Rightarrow> device_item \<Rightarrow> bool" where
  "range_ok device_count (Single n) \<longleftrightarrow> True"
| "range_ok device_count (Span a b) \<longleftrightarrow> a < b \<and> b < device_count"

section \<open>Video frame sampler (custom\_dataset/sample.py, extract\_frames)\<close>

text \<open>
  A capture is what \<^verbatim>\<open>cv2.VideoCapture\<close> reports: whether it opened, its frame rate and
  the frames \<^verbatim>\<open>cap.read()\<close> delivers before it returns false. The frame rate and the
  interval are finite floats; their product is rounded as a \<^verbatim>\<open>float64\<close> product is.
  \<^verbatim>\<open>int(x)\<close> on a float drops the fraction, and raises \<^verbatim>\<open>OverflowError\<close> on an infinity.
\<close>

record 'f capture =
  is_opened :: bool
  cap_fps :: rat
  cap_frames :: "'f list"

definition int_of_float :: "rat \<Rightarrow> int" where
  "int_of_float x = (if 0 \<le> x then \<lfloor>x\<rfloor> else \<lceil>x\<rceil>)"

text \<open>The format \<^verbatim>\<open>{saved_count:05d}\<close>.\<close>

definition pad5 :: "nat \<Rightarrow> string" where
  "pad5 n = replicate (5 - length (dec n)) CHR ''0'' @ dec n"

text \<open>\<^verbatim>\<open>os.path.join(a, b)\<close> on POSIX.\<close>

definition os_path_join :: "string \<Rightarrow> string \<Rightarrow> string" where
  "os_path_join a b =
     (if b \<noteq> [] \<and> hd b = CHR ''/'' then b
      else if a = [] \<or> last a = CHR ''/'' then a @ b
      else a @ ''/'' @ b)"

definition img_name :: "string \<Rightarrow> string \<Rightarrow> nat \<Rightarrow> string" where
  "img_name output_dir filename saved_count =
     os_path_join output_dir (filename @ ''_frame_'' @ pad5 saved_count @ ''.jpg'')"

text \<open>
  The \<^verbatim>\<open>while True\<close> loop, over the frames still to be read. The result is the list of
  files written by \<^verbatim>\<open>cv2.imwrite\<close> (name and frame) and the exception that ended the
  loop, if any. \<^verbatim>\<open>frame_count % frame_interval\<close> raises when the interval is zero.
\<close>

fun frame_loop ::
  "string \<Rightarrow> string \<Rightarrow> int \<Rightarrow> int \<Rightarrow> nat \<Rightarrow> (string \<times> 'f) list \<Rightarrow> 'f list
     \<Rightarrow> (string \<times> 'f) list \<times> py_error option" where
  "frame_loop output_dir filename frame_interval frame_count saved_count written [] =
     (written, None)"
| "frame_loop output_dir filename frame_interval frame_count saved_count written (frame # rest) =
     (if frame_interval = 0 then (written, Some ZeroDivisionError)
      else if frame_count mod frame_interval = 0 then
        frame_loop output_dir filename frame_interval (frame_count + 1) (saved_count + 1)
          (written @ [(img_name output_dir filename saved_count, frame)]) rest
      else
        frame_loop output_dir filename frame_interval (frame_count + 1) saved_count written rest)"

definition extract_frames ::
  "'f capture \<Rightarrow> string \<Rightarrow> string \<Rightarrow> rat \<Rightarrow> (string \<times> 'f) list \<times> py_error option" where
  "extract_frames cap filename output_dir interval_sec =
     (if \<not> is_opened cap then ([], Some RuntimeError)
      else if cap_fps cap = 0 then ([], Some RuntimeError)
      else if overflows (cap_fps cap * interval_sec) then ([], Some OverflowError)
      else frame_loop output_dir filename
             (int_of_float (fl64 (cap_fps cap * interval_sec))) 0 0 [] (cap_frames cap))"

section \<open>Wavelet/CLAHE fusion (fog-removal/defog\_pipeline.py, KimDefogPipeline.dehaze)\<close>

text \<open>
  One channel of an 8-bit image is a list of rows of \<^verbatim>\<open>uint8\<close> values. The products and
  the sum of the fusion step are \<^verbatim>\<open>float64\<close> operations, each rounded by \<open>fl64\<close>.
\<close>

type_synonym channel = "8 word list list"

text \<open>\<^verbatim>\<open>v.shape\<close> of a channel with at least one row.\<close>

definition shape_of :: "channel \<Rightarrow> nat \<times> nat" where
  "shape_of v = (length v, if v = [] then 0 else length (hd v))"

text \<open>\<^verbatim>\<open>np.clip(x, lo, hi)\<close> and \<^verbatim>\<open>.astype(np.uint8)\<close> on one value.\<close>

definition np_clip :: "rat \<Rightarrow> rat \<Rightarrow> rat \<Rightarrow> rat" where
  "np_clip x lo hi = min (max x lo) hi"

definition astype_uint8 :: "rat \<Rightarrow> 8 word" where
  "astype_uint8 x = word_of_int (int_of_float x)"

text \<open>
  \<^verbatim>\<open>v_fused = self.fusion_weight * v_clahe + (1 - self.fusion_weight) * v_dwt\<close>, then
  \<^verbatim>\<open>np.clip(v_fused, 0, 255).astype(np.uint8)\<close>, element by element.
\<close>

definition fuse_pixel :: "rat \<Rightarrow> 8 word \<Rightarrow> 8 word \<Rightarrow> 8 word" where
  "fuse_pixel fusion_weight c d =
     astype_uint8
       (np_clip
          (fl64 (fl64 (fusion_weight * of_nat (unat c)) +
                 fl64 (fl64 (1 - fusion_weight) * of_nat (unat d)))) 0 255)"

definition fuse :: "rat \<Rightarrow> channel \<Rightarrow> channel \<Rightarrow> channel" where
  "fuse fusion_weight v_clahe v_dwt = map2 (map2 (fuse_pixel fusion_weight)) v_clahe v_dwt"

text \<open>\<^verbatim>\<open>v_dwt[: original_shape[0], : original_shape[1]]\<close>\<close>

definition crop :: "nat \<times> nat \<Rightarrow> channel \<Rightarrow> channel" where
  "crop original_shape x = map (take (snd original_shape)) (take (fst original_shape) x)"

text \<open>
  The library calls of the pipeline: the dark channel prior dehazer, the colour
  conversions of OpenCV with the split into hue, saturation and value, CLAHE, and the
  wavelet branch \<^verbatim>\<open>self.dwt\<close> built on PyWavelets.
\<close>

record 'img fusion_ops =
  dcp_dehaze :: "'img \<Rightarrow> 'img"
  bgr2hsv_split :: "'img \<Rightarrow> channel \<times> channel \<times> channel"
  clahe :: "channel \<Rightarrow> channel"
  dwt :: "channel \<Rightarrow> channel"
  merge_hsv2bgr :: "channel \<times> channel \<times> channel \<Rightarrow> 'img"

text \<open>The value channel of the dehazed image, and steps 3a to 4 of \<^verbatim>\<open>dehaze\<close> on it.\<close>

definition value_channel :: "'img fusion_ops \<Rightarrow> 'img \<Rightarrow> channel" where
  "value_channel ops img = snd (snd (bgr2hsv_split ops (dcp_dehaze ops img)))"

definition v_clahe_of :: "'img fusion_ops \<Rightarrow> 'img \<Rightarrow> channel" where
  "v_clahe_of ops img = clahe ops (value_channel ops img)"

definition v_dwt_of :: "'img fusion_ops \<Rightarrow> 'img \<Rightarrow> channel" where
  "v_dwt_of ops img =
     crop (shape_of (value_channel ops img)) (dwt ops (value_channel ops img))"

definition v_fused_of :: "'img fusion_ops \<Rightarrow> rat \<Rightarrow> 'img \<Rightarrow> channel" where
  "v_fused_of ops fusion_weight img =
     fuse fusion_weight (v_clahe_of ops img) (v_dwt_of ops img)"

definition dehaze :: "'img fusion_ops \<Rightarrow> rat \<Rightarrow> 'img \<Rightarrow> 'img" where
  "dehaze ops fusion_weight img =
     (let hsv = bgr2hsv_split ops (dcp_dehaze ops img)
      in merge_hsv2bgr ops (fst hsv, fst (snd hsv), v_fused_of ops fusion_weight img))"

text \<open>
  Two channels of one shape, as the two branches are in the pipeline: CLAHE keeps the
  shape of its input, and the wavelet reconstruction is cropped to it.
\<close>

definition same_shape :: "channel \<Rightarrow> channel \<Rightarrow> bool" where
  "same_shape a b = list_all2 (\<lambda>r r'. length r = length r') a b"

section \<open>Label placement (CCNet/tools/run\_inference.py, add\_labels\_to\_image)\<close>







text \<open>
  \<^verbatim>\<open>component_sizes.sort(key=lambda x: x[1], reverse=True)\<close>: descending by size, and
  components of equal size keep their order.
\<close>

definition largest_first :: "(nat \<times> nat) list \<Rightarrow> (nat \<times> nat) list" where
  "largest_first component_sizes = rev (sort_key snd (rev component_sizes))"









section \<open>Atmospheric light (fog-removal/dcp.py, \_compute\_atmospheric\_light)\<close>
















section \<open>Mask decoding (CCNet/utils/pyt\_utils.py: decode\_labels, decode\_predictions, inv\_preprocess)\<close>

text \<open>
  The names the module binds at top level: its imports, \<^verbatim>\<open>logger\<close>, \<^verbatim>\<open>label_colours\<close>
  and its functions. A name read in a function body that is neither a local, nor one of
  these, nor a builtin raises \<^verbatim>\<open>NameError\<close> when it is evaluated; \<^verbatim>\<open>np\<close> and
  \<^verbatim>\<open>Image\<close> are no builtins.
\<close>

definition pyt_utils_globals :: "string list" where
  "pyt_utils_globals =
     [''os'', ''sys'', ''time'', ''argparse'', ''OrderedDict'', ''defaultdict'', ''torch'',
      ''model_zoo'', ''dist'', ''get_logger'', ''logger'', ''label_colours'',
      ''reduce_tensor'', ''all_reduce_tensor'', ''load_model'', ''parse_devices'',
      ''extant_file'', ''link_file'', ''ensure_dir'', ''_dbg_interactive'', ''decode_labels'',
      ''decode_predictions'', ''inv_preprocess'']"

definition resolve :: "string list \<Rightarrow> string \<Rightarrow> py_error + unit" where
  "resolve globals name = (if name \<in> set globals then Inr () else Inl NameError)"

type_synonym rgb = "nat \<times> nat \<times> nat"

definition label_colours :: "rgb list" where
  "label_colours =
     [(0, 0, 0),
      (128, 0, 0), (0, 128, 0), (128, 128, 0), (0, 0, 128), (128, 0, 128),
      (0, 128, 128), (128, 128, 128), (64, 0, 0), (192, 0, 0), (64, 128, 0),
      (192, 128, 0), (64, 0, 128), (192, 0, 128), (64, 128, 128), (192, 128, 128),
      (0, 64, 0), (128, 64, 0), (0, 192, 0), (128, 192, 0), (0, 64, 128)]"

text \<open>Arrays with their shape: a batch of masks, and a batch of multi-channel images.\<close>

record array3 =
  dim_n :: nat
  dim_h :: nat
  dim_w :: nat
  at3 :: "nat \<Rightarrow> nat \<Rightarrow> nat \<Rightarrow> int"

record array4 =
  batch :: nat
  chans :: nat
  rows :: nat
  cols :: nat
  at4 :: "nat \<Rightarrow> nat \<Rightarrow> nat \<Rightarrow> nat \<Rightarrow> rat"

text \<open>\<^verbatim>\<open>xs[i]\<close> on a list: an index below zero counts from the end.\<close>

definition py_index :: "'a list \<Rightarrow> int \<Rightarrow> py_error + 'a" where
  "py_index xs i =
     (if 0 \<le> i \<and> i < int (length xs) then Inr (xs ! nat i)
      else if i < 0 \<and> - int (length xs) \<le> i then Inr (xs ! nat (int (length xs) + i))
      else Inl IndexError)"

text \<open>A loop that collects one result per element and stops at the first exception.\<close>

fun collect :: "('a \<Rightarrow> py_error + 'b) \<Rightarrow> 'a list \<Rightarrow> py_error + 'b list" where
  "collect f [] = Inr []"
| "collect f (x # xs) =
     (case f x of
        Inl e \<Rightarrow> Inl e
      | Inr y \<Rightarrow> (case collect f xs of Inl e \<Rightarrow> Inl e | Inr ys \<Rightarrow> Inr (y # ys)))"

text \<open>
  \<^verbatim>\<open>if k < num_classes: pixels[k_,j_] = label_colours[k]\<close>; a pixel not set stays black.
\<close>

definition pixel_colour :: "int \<Rightarrow> int \<Rightarrow> py_error + rgb" where
  "pixel_colour num_classes k =
     (if k < num_classes then py_index label_colours k else Inr (0, 0, 0))"

text \<open>
  The body of \<^verbatim>\<open>for i in range(num_images)\<close> for one mask of \<open>h\<close> rows and \<open>w\<close>
  columns: \<^verbatim>\<open>Image\<close> is evaluated first, then \<^verbatim>\<open>mask[i, 0]\<close>, which needs a row.
\<close>

definition render_mask ::
  "string list \<Rightarrow> int \<Rightarrow> nat \<Rightarrow> nat \<Rightarrow> (nat \<Rightarrow> nat \<Rightarrow> int) \<Rightarrow> py_error + rgb list list" where
  "render_mask globals num_classes h w px =
     (case resolve globals ''Image'' of
        Inl e \<Rightarrow> Inl e
      | Inr _ \<Rightarrow>
          if h = 0 then Inl IndexError
          else collect (\<lambda>j. collect (\<lambda>k. pixel_colour num_classes (px j k)) [0 ..< w]) [0 ..< h])"

text \<open>
  From the assertion on: the assertion, \<^verbatim>\<open>np.zeros\<close> (which refuses a negative
  dimension) and the loop over the images.
\<close>

definition render_batch ::
  "string list \<Rightarrow> array3 \<Rightarrow> int \<Rightarrow> int \<Rightarrow> py_error + rgb list list list" where
  "render_batch globals labels num_images num_classes =
     (if \<not> num_images \<le> int (dim_n labels) then Inl AssertionError
      else
        (case resolve globals ''np'' of
           Inl e \<Rightarrow> Inl e
         | Inr _ \<Rightarrow>
             if num_images < 0 then Inl ValueError
             else collect (\<lambda>i. render_mask globals num_classes (dim_h labels) (dim_w labels)
                                  (at3 labels i)) [0 ..< nat num_images]))"

definition decode_labels ::
  "string list \<Rightarrow> array3 \<Rightarrow> int \<Rightarrow> int \<Rightarrow> py_error + rgb list list list" where
  "decode_labels globals labels num_images num_classes =
     render_batch globals labels num_images num_classes"

text \<open>
  \<^verbatim>\<open>np.concatenate(preds_list, axis=0)\<close> and \<^verbatim>\<open>np.argmax(preds, axis=1)\<close> (the first
  index of the largest value).
\<close>

fun concat_at :: "array4 list \<Rightarrow> nat \<Rightarrow> nat \<Rightarrow> nat \<Rightarrow> nat \<Rightarrow> rat" where
  "concat_at [] b = (\<lambda>c r k. 0)"
| "concat_at (a # as) b = (if b < batch a then at4 a b else concat_at as (b - batch a))"

definition np_concatenate :: "array4 list \<Rightarrow> py_error + array4" where
  "np_concatenate arrays =
     (case arrays of
        [] \<Rightarrow> Inl ValueError
      | a # as \<Rightarrow>
          if list_all (\<lambda>b. chans b = chans a \<and> rows b = rows a \<and> cols b = cols a) as
          then Inr \<lparr>batch = sum_list (map batch arrays), chans = chans a, rows = rows a,
                    cols = cols a, at4 = concat_at arrays\<rparr>
          else Inl ValueError)"

definition argmax_list :: "rat list \<Rightarrow> nat" where
  "argmax_list xs =
     fst (foldl (\<lambda>best iv. if snd best < snd iv then iv else best) (0, hd xs) (enumerate 0 xs))"

definition np_argmax :: "array4 \<Rightarrow> py_error + array3" where
  "np_argmax a =
     (if chans a = 0 then Inl ValueError
      else Inr \<lparr>dim_n = batch a, dim_h = rows a, dim_w = cols a,
                at3 = (\<lambda>b r k. int (argmax_list (map (\<lambda>c. at4 a b c r k) [0 ..< chans a])))\<rparr>)"

text \<open>
  The argument of \<^verbatim>\<open>decode_predictions\<close>: a list of sequences of tensors, of which the
  last of each is taken, or one tensor.
\<close>

datatype predictions = Pred_list "array4 list list" | Pred_tensor array4

definition last_of :: "array4 list \<Rightarrow> py_error + array4" where
  "last_of pred = py_index pred (- 1)"

definition decode_predictions ::
  "string list \<Rightarrow> predictions \<Rightarrow> int \<Rightarrow> int \<Rightarrow> py_error + rgb list list list" where
  "decode_predictions globals preds num_images num_classes =
     (case (case preds of
              Pred_list ps \<Rightarrow>
                (case collect last_of ps of
                   Inl e \<Rightarrow> Inl e
                 | Inr preds_list \<Rightarrow>
                     (case resolve globals ''np'' of
                        Inl e \<Rightarrow> Inl e
                      | Inr _ \<Rightarrow> np_concatenate preds_list))
            | Pred_tensor t \<Rightarrow> Inr t) of
        Inl e \<Rightarrow> Inl e
      | Inr a \<Rightarrow>
          (case resolve globals ''np'' of
             Inl e \<Rightarrow> Inl e
           | Inr _ \<Rightarrow>
               (case np_argmax a of
                  Inl e \<Rightarrow> Inl e
                | Inr labels \<Rightarrow> render_batch globals labels num_images num_classes)))"

text \<open>
  \<^verbatim>\<open>inv_preprocess\<close>: the mean is added along the channel axis, which must have its
  length (or the mean has one entry), and the sum is cast to \<^verbatim>\<open>uint8\<close>.
\<close>

definition add_mean :: "array4 \<Rightarrow> rat list \<Rightarrow> nat \<Rightarrow> py_error + 8 word list list list" where
  "add_mean imgs img_mean i =
     (if length img_mean = chans imgs then
        Inr (map (\<lambda>r. map (\<lambda>k. map (\<lambda>c. astype_uint8 (at4 imgs i c r k + img_mean ! c))
                                 [0 ..< chans imgs]) [0 ..< cols imgs]) [0 ..< rows imgs])
      else if length img_mean = 1 then
        Inr (map (\<lambda>r. map (\<lambda>k. map (\<lambda>c. astype_uint8 (at4 imgs i c r k + img_mean ! 0))
                                 [0 ..< chans imgs]) [0 ..< cols imgs]) [0 ..< rows imgs])
      else Inl ValueError)"

definition inv_preprocess ::
  "string list \<Rightarrow> array4 \<Rightarrow> int \<Rightarrow> rat list \<Rightarrow> py_error + 8 word list list list list" where
  "inv_preprocess globals imgs num_images img_mean =
     (if \<not> num_images \<le> int (batch imgs) then Inl AssertionError
      else
        (case resolve globals ''np'' of
           Inl e \<Rightarrow> Inl e
         | Inr _ \<Rightarrow>
             if num_images < 0 then Inl ValueError
             else collect (add_mean imgs img_mean) [0 ..< nat num_images]))"

section \<open>Image folder datasets (FasterRCNN/register\_custom\_dataset.py)\<close>

text \<open>
  Detectron2's two catalogs. \<^verbatim>\<open>DatasetCatalog\<close> maps a name to the function that
  produces the records; the function registered here is the closure \<^verbatim>\<open>get_image_dicts\<close>,
  which is determined by the list \<^verbatim>\<open>image_files\<close> it captured. The library refuses a
  name that is registered already, and refuses to change an attribute of the metadata
  once it is set; both raise \<^verbatim>\<open>AssertionError\<close>.
\<close>

record catalogs =
  datasets :: "string \<rightharpoonup> string list"
  metadata :: "string \<rightharpoonup> string list"

definition catalog_register :: "catalogs \<Rightarrow> string \<Rightarrow> string list \<Rightarrow> py_error + catalogs" where
  "catalog_register cat name image_files =
     (case datasets cat name of
        Some _ \<Rightarrow> Inl AssertionError
      | None \<Rightarrow> Inr (cat\<lparr>datasets := (datasets cat)(name \<mapsto> image_files)\<rparr>))"

definition set_thing_classes :: "catalogs \<Rightarrow> string \<Rightarrow> string list \<Rightarrow> py_error + catalogs" where
  "set_thing_classes cat name classes =
     (case metadata cat name of
        None \<Rightarrow> Inr (cat\<lparr>metadata := (metadata cat)(name \<mapsto> classes)\<rparr>)
      | Some old \<Rightarrow> if old = classes then Inr cat else Inl AssertionError)"

definition COCO_CLASSES :: "string list" where
  "COCO_CLASSES =
     [''person'', ''bicycle'', ''car'', ''motorcycle'', ''airplane'', ''bus'', ''train'',
      ''truck'', ''boat'', ''traffic light'', ''fire hydrant'', ''stop sign'',
      ''parking meter'', ''bench'', ''bird'', ''cat'', ''dog'', ''horse'', ''sheep'', ''cow'',
      ''elephant'', ''bear'', ''zebra'', ''giraffe'', ''backpack'', ''umbrella'', ''handbag'',
      ''tie'', ''suitcase'', ''frisbee'', ''skis'', ''snowboard'', ''sports ball'', ''kite'',
      ''baseball bat'', ''baseball glove'', ''skateboard'', ''surfboard'', ''tennis racket'',
      ''bottle'', ''wine glass'', ''cup'', ''fork'', ''knife'', ''spoon'', ''bowl'', ''banana'',
      ''apple'', ''sandwich'', ''orange'', ''broccoli'', ''carrot'', ''hot dog'', ''pizza'',
      ''donut'', ''cake'', ''chair'', ''couch'', ''potted plant'', ''bed'', ''dining table'',
      ''toilet'', ''tv'', ''laptop'', ''mouse'', ''remote'', ''keyboard'', ''cell phone'',
      ''microwave'', ''oven'', ''toaster'', ''sink'', ''refrigerator'', ''book'', ''clock'',
      ''vase'', ''scissors'', ''teddy bear'', ''hair drier'', ''toothbrush'']"

text \<open>\<^verbatim>\<open>sorted([str(p) for p in image_dir.rglob("*") if ...])\<close>\<close>

definition found_image_files :: "directory \<Rightarrow> string list" where
  "found_image_files image_dir = sort (map path_str (image_entries image_dir))"

text \<open>
  \<^verbatim>\<open>register_image_folder_dataset\<close>. \<open>thing_classes\<close> is \<open>None\<close> for the default
  argument; \<^verbatim>\<open>if thing_classes:\<close> also takes the empty list to the default classes.
\<close>

definition register_image_folder_dataset ::
  "catalogs \<Rightarrow> string \<Rightarrow> directory \<Rightarrow> string list option \<Rightarrow> py_error + catalogs" where
  "register_image_folder_dataset cat name image_dir thing_classes =
     (if \<not> dir_exists image_dir then Inl ValueError
      else if found_image_files image_dir = [] then Inl ValueError
      else
        (case catalog_register cat name (found_image_files image_dir) of
           Inl e \<Rightarrow> Inl e
         | Inr cat' \<Rightarrow>
             (case thing_classes of
                None \<Rightarrow> set_thing_classes cat' name COCO_CLASSES
              | Some classes \<Rightarrow>
                  if classes \<noteq> [] then set_thing_classes cat' name classes
                  else set_thing_classes cat' name COCO_CLASSES)))"

text \<open>
  A record of the dataset, and the deferred scan \<^verbatim>\<open>get_image_dicts\<close>. \<open>imread\<close> is
  \<^verbatim>\<open>cv2.imread\<close> at the time of the scan: the height and width of the decoded image, or
  \<open>None\<close> for a file that cannot be decoded.
\<close>

record dataset_record =
  file_name :: string
  image_id :: string
  height :: nat
  width :: nat

fun get_image_dicts :: "(string \<Rightarrow> (nat \<times> nat) option) \<Rightarrow> string list \<Rightarrow> dataset_record list" where
  "get_image_dicts imread [] = []"
| "get_image_dicts imread (image_path # rest) =
     (case imread image_path of
        None \<Rightarrow> get_image_dicts imread rest
      | Some hw \<Rightarrow>
          \<lparr>file_name = image_path, image_id = path_stem (split_on CHR ''/'' image_path),
           height = fst hw, width = snd hw\<rparr> # get_image_dicts imread rest)"

text \<open>\<^verbatim>\<open>DatasetCatalog.get(name)\<close>: runs the registered function.\<close>

definition catalog_get ::
  "catalogs \<Rightarrow> (string \<Rightarrow> (nat \<times> nat) option) \<Rightarrow> string \<Rightarrow> py_error + dataset_record list" where
  "catalog_get cat imread name =
     (case datasets cat name of
        None \<Rightarrow> Inl KeyError
      | Some image_files \<Rightarrow> Inr (get_image_dicts imread image_files))"

section \<open>Facts about strings and decimal numerals\<close>

lemma split_on_no_sep: "c \<notin> set s \<Longrightarrow> split_on c s = [s]"
  by (induction s) auto

lemma split_on_append: "c \<notin> set s \<Longrightarrow> split_on c (s @ c # t) = s # split_on c t"
  by (induction s) auto

lemma split_on_join:
  "ps \<noteq> [] \<Longrightarrow> list_all (\<lambda>p. c \<notin> set p) ps \<Longrightarrow> split_on c (join_with [c] ps) = ps"
proof (induction "[c]" ps rule: join_with.induct)
  case 1
  then show ?case by simp
next
  case (2 p)
  then show ?case by (simp add: split_on_no_sep)
next
  case (3 p q ps)
  then show ?case by (simp add: split_on_append)
qed

lemma last_join_with:
  "ps \<noteq> [] \<Longrightarrow> last ps \<noteq> [] \<Longrightarrow>
     join_with sep ps \<noteq> [] \<and> last (join_with sep ps) = last (last ps)"
  by (induction sep ps rule: join_with.induct) auto

lemma list_all_hd_last: "s \<noteq> [] \<Longrightarrow> list_all P s \<Longrightarrow> P (hd s) \<and> P (last s)"
  by (auto simp add: list_all_iff)

lemma digit_table:
  "list_all (\<lambda>n. is_digit_char (digit_char n) \<and> digit_val (digit_char n) = n) [0 ..< 10]"
  by (simp add: upt_rec is_digit_char_def digit_char_def digit_val_def)

lemma is_digit_digit_char: "n < 10 \<Longrightarrow> is_digit_char (digit_char n)"
  using digit_table by (simp add: list_all_iff)

lemma digit_val_digit_char: "n < 10 \<Longrightarrow> digit_val (digit_char n) = n"
  using digit_table by (simp add: list_all_iff)

lemma digit_not_special:
  "is_digit_char c \<Longrightarrow>
     c \<noteq> CHR ''_'' \<and> c \<noteq> CHR ''-'' \<and> c \<noteq> CHR ''+'' \<and> c \<noteq> CHR '','' \<and> c \<noteq> CHR ''*'' \<and>
     \<not> is_space_char c"
  by (auto simp add: is_digit_char_def is_space_char_def)

lemma not_digit_special:
  "\<not> is_digit_char CHR ''-''" "\<not> is_digit_char CHR '',''" "\<not> is_digit_char CHR ''*''"
  by (simp_all add: is_digit_char_def)

lemma dec_nonempty: "dec n \<noteq> []"
  by (subst dec.simps) simp

lemma dec_all_digits: "list_all is_digit_char (dec n)"
proof (induction n rule: dec.induct)
  case (1 n)
  show ?case
  proof (cases "n < 10")
    case True
    then show ?thesis by (subst dec.simps) (simp add: is_digit_digit_char)
  next
    case False
    then have "list_all is_digit_char (dec (n div 10))" using 1 by simp
    then show ?thesis using False by (subst dec.simps) (simp add: is_digit_digit_char)
  qed
qed

lemma dec_no_char: "\<not> is_digit_char c \<Longrightarrow> c \<notin> set (dec n)"
  using dec_all_digits [of n] by (auto simp add: list_all_iff)

lemma digits_ok_all_digits: "s \<noteq> [] \<Longrightarrow> list_all is_digit_char s \<Longrightarrow> digits_ok s"
  by (induction s rule: digits_ok.induct) (auto dest: digit_not_special)

lemma filter_digits: "list_all is_digit_char s \<Longrightarrow> filter (\<lambda>c. c \<noteq> CHR ''_'') s = s"
  by (induction s) (auto dest: digit_not_special)

lemma digits_value_dec: "digits_value (dec n) = n"
proof (induction n rule: dec.induct)
  case (1 n)
  show ?case
  proof (cases "n < 10")
    case True
    then show ?thesis
      by (subst dec.simps) (simp add: digits_value_def digit_val_digit_char digit_not_special
            is_digit_digit_char)
  next
    case False
    have f: "filter (\<lambda>c. c \<noteq> CHR ''_'') (dec (n div 10)) = dec (n div 10)"
      by (rule filter_digits) (rule dec_all_digits)
    have "digits_value (dec (n div 10)) = n div 10" using 1 False by simp
    then have "foldl (\<lambda>acc c. 10 * acc + digit_val c) 0 (dec (n div 10)) = n div 10"
      by (simp add: digits_value_def f)
    then show ?thesis using False
      by (subst dec.simps)
         (simp add: digits_value_def f digit_val_digit_char digit_not_special is_digit_digit_char)
  qed
qed

lemma strip_id:
  assumes "s \<noteq> []" "\<not> is_space_char (hd s)" "\<not> is_space_char (last s)"
  shows "strip s = s"
proof -
  have 1: "dropWhile is_space_char s = s"
    using assms by (simp add: dropWhile_eq_self_iff)
  have "hd (rev s) = last s" using assms by (simp add: hd_rev)
  then have 2: "dropWhile is_space_char (rev s) = rev s"
    using assms by (simp add: dropWhile_eq_self_iff)
  show ?thesis unfolding strip_def 1 2 by simp
qed

text \<open>\<^verbatim>\<open>int\<close> reads a decimal numeral back.\<close>

lemma py_int_dec: "py_int (dec n) = Inr (int n)"
proof -
  have ne: "dec n \<noteq> []" by (rule dec_nonempty)
  have ad: "list_all is_digit_char (dec n)" by (rule dec_all_digits)
  have hl: "is_digit_char (hd (dec n))" "is_digit_char (last (dec n))"
    using list_all_hd_last [OF ne ad] by simp_all
  have s: "strip (dec n) = dec n"
    using ne hl by (intro strip_id) (auto dest: digit_not_special)
  obtain c cs where d: "dec n = c # cs" using ne by (cases "dec n") auto
  have c: "c \<noteq> CHR ''-''" "c \<noteq> CHR ''+''" using hl d by (auto dest: digit_not_special)
  have "unsigned_int (dec n) = Inr (int n)"
    by (simp add: unsigned_int_def digits_ok_all_digits [OF ne ad] digits_value_dec)
  then have "unsigned_int (c # cs) = Inr (int n)" by (simp add: d)
  moreover have "strip (dec n) = c # cs" using s d by simp
  ultimately show ?thesis using c by (simp add: py_int_def)
qed

section \<open>Facts about float64 rounding\<close>

lemma bit_length_nonneg: "0 \<le> bit_length n"
  by (induction n rule: bit_length.induct) (subst bit_length.simps, simp)

lemma bit_length_le: "n < 2 ^ k \<Longrightarrow> bit_length n \<le> int k"
proof (induction k arbitrary: n)
  case 0
  then show ?case by (subst bit_length.simps) simp
next
  case (Suc k)
  show ?case
  proof (cases "n \<le> 0")
    case True
    then show ?thesis by (subst bit_length.simps) simp
  next
    case False
    have "n div 2 < 2 ^ k" using Suc.prems by simp
    then have "bit_length (n div 2) \<le> int k" by (rule Suc.IH)
    then show ?thesis using False by (subst bit_length.simps) simp
  qed
qed

lemma round_half_even_of_int: "round_half_even (of_int z) = z"
  by (simp add: round_half_even_def)




lemma ulp_exp_small:
  assumes "0 < x" and "x < 2 ^ 53"
  shows "ulp_exp x \<le> 0"
proof -
  have "ilog2 x \<le> 52"
  proof (cases "1 \<le> x")
    case True
    have "\<lfloor>x\<rfloor> < 2 ^ 53" using assms(2) by (simp add: floor_less_iff)
    then have "bit_length \<lfloor>x\<rfloor> \<le> int 53" by (rule bit_length_le)
    then show ?thesis using True by (simp add: ilog2_def)
  next
    case False
    then show ?thesis using bit_length_nonneg [of "\<lceil>1 / x\<rceil> - 1"] by (simp add: ilog2_def)
  qed
  then show ?thesis by (simp add: ulp_exp_def)
qed


lemma fl64_of_int:
  assumes "0 \<le> n" and "n < 2 ^ 53"
  shows "fl64 (of_int n) = of_int n"
proof (cases "n = 0")
  case True
  then show ?thesis by (simp add: fl64_def)
next
  case False
  then have pos: "0 < (of_int n :: rat)" using assms(1) by simp
  have "(of_int n :: rat) < of_int (2 ^ 53)" using assms(2) by (simp only: of_int_less_iff)
  then have lt: "(of_int n :: rat) < 2 ^ 53" by simp
  define k where "k = nat (- ulp_exp (of_int n))"
  have e: "ulp_exp (of_int n) \<le> 0" using pos lt by (rule ulp_exp_small)
  have p: "pow2 (ulp_exp (of_int n)) = 1 / 2 ^ k"
  proof (cases "ulp_exp (of_int n) = 0")
    case True
    then show ?thesis by (simp add: pow2_def k_def)
  next
    case False
    then show ?thesis using e by (simp add: pow2_def k_def)
  qed
  have "(of_int n :: rat) * 2 ^ k = of_int (n * 2 ^ k)" by simp
  then have "round_half_even (of_int n * 2 ^ k) = n * 2 ^ k"
    by (simp only: round_half_even_of_int)
  then show ?thesis using pos by (simp add: fl64_def p)
qed

lemma fl64_of_nat: "n < 2 ^ 53 \<Longrightarrow> fl64 (of_nat n) = of_nat n"
  using fl64_of_int [of "int n"] by simp

lemma fl64_zero: "fl64 0 = 0"
  by (simp add: fl64_def)

lemma fl64_one: "fl64 1 = 1"
  using fl64_of_int [of 1] by simp

lemma not_overflows: "\<bar>fl64 x\<bar> < 1 \<Longrightarrow> \<not> overflows x"
proof -
  assume "\<bar>fl64 x\<bar> < 1"
  moreover have "(1 :: rat) \<le> 2 ^ 1024" by (rule one_le_power) simp
  ultimately show ?thesis by (simp add: overflows_def)
qed

section \<open>Output files of the segmentation runner: where they go\<close>

text \<open>
  Every file of one pass is written directly in the output directory, whatever the
  subdirectory of the image.
\<close>

lemma output_paths_flat:
  assumes "output_paths save_overlay save_labeled image_dir output_dir image_path = Inr ps"
  shows "list_all (\<lambda>p. butlast p = output_dir) ps"
proof (cases "relative_to image_path image_dir")
  case (Inl e)
  then show ?thesis using assms by (simp add: output_paths_def)
next
  case (Inr rel_path)
  then show ?thesis using assms by (auto simp add: output_paths_def)
qed

text \<open>
  C1 has the outputs mirror the subdirectory of the image below the image root. The
  runner computes the relative path and then keeps its stem only: for the images
  \<open>data/a/x.jpg\<close> and \<open>data/b/x.jpg\<close> (both listed, the scan being recursive) it
  writes \<open>out/x_mask.png\<close>, \<open>out/x_overlay.png\<close> and \<open>out/x_labeled.png\<close> twice, the
  second pass over the files of the first, where mirroring gives
  \<open>out/a/x_mask.png\<close> and \<open>out/b/x_mask.png\<close>.
\<close>

theorem run_inference_outputs_collide:
  "list_images \<lparr>dir_exists = True,
       rglob = [([''data'', ''a''], False), ([''data'', ''a'', ''x.jpg''], True),
                ([''data'', ''b''], False), ([''data'', ''b'', ''x.jpg''], True)]\<rparr>
     = [[''data'', ''a'', ''x.jpg''], [''data'', ''b'', ''x.jpg'']]
   \<and> output_paths True True [''data''] [''out''] [''data'', ''a'', ''x.jpg'']
     = Inr [[''out'', ''x_mask.png''], [''out'', ''x_overlay.png''], [''out'', ''x_labeled.png'']]
   \<and> output_paths True True [''data''] [''out''] [''data'', ''b'', ''x.jpg'']
     = Inr [[''out'', ''x_mask.png''], [''out'', ''x_overlay.png''], [''out'', ''x_labeled.png'']]
   \<and> mirrored_path [''data''] [''out''] [''data'', ''a'', ''x.jpg''] ''_mask.png''
     = Inr [''out'', ''a'', ''x_mask.png'']
   \<and> mirrored_path [''data''] [''out''] [''data'', ''b'', ''x.jpg''] ''_mask.png''
     = Inr [''out'', ''b'', ''x_mask.png'']"
  by code_simp

section \<open>Checkpoint key remapping: the loaded mapping\<close>

lemma try_pattern_cases:
  "try_pattern b ms v parts i =
     (if b \<and> i + 1 < length parts \<and> parts ! (i + 1) \<in> set bn_params \<and>
         fits ms (insert_zero parts i) v
      then Some (insert_zero parts i) else None)"
  by (simp add: try_pattern_def)

lemma remap_scan_find:
  "remap_scan ms v parts idxs =
     find (\<lambda>new_key. fits ms new_key v) (concat (map (rewrites_at parts) idxs))"
  by (induction idxs) (simp_all add: try_pattern_cases rewrites_at_def)

lemma remap_key_loaded_key: "remap_key ms (fst kv) (snd kv) = loaded_key ms kv"
  by (simp add: remap_key_def loaded_key_def spec_target_def spec_rewrites_def remap_scan_find)

text \<open>The loop stores entry after entry, a later entry replacing an earlier one under its key.\<close>

lemma remap_loop_map_of:
  "map_of (foldl (remap_entry ms) acc state_dict) =
     map_of acc ++ map_of (rev (map (\<lambda>kv. (loaded_key ms kv, snd kv)) state_dict))"
proof (induction state_dict arbitrary: acc)
  case Nil
  then show ?case by simp
next
  case (Cons kv state_dict)
  have "map_of (remap_entry ms acc kv) = (map_of acc)(loaded_key ms kv \<mapsto> snd kv)"
    by (simp add: remap_entry_def remap_key_loaded_key update_conv')
  then show ?case using Cons.IH [of "remap_entry ms acc kv"]
    by (auto simp add: map_add_def fun_eq_iff split: option.splits)
qed

lemma map_of_rev_last:
  assumes "i < length ts"
    and "list_all (\<lambda>t. fst t \<noteq> fst (ts ! i)) (drop (Suc i) ts)"
  shows "map_of (rev ts) (fst (ts ! i)) = Some (snd (ts ! i))"
proof -
  have ts: "ts = take i ts @ ts ! i # drop (Suc i) ts"
    using assms(1) by (rule id_take_nth_drop)
  have "fst (ts ! i) \<notin> fst ` set (rev (drop (Suc i) ts))"
    using assms(2) by (auto simp add: list_all_iff)
  then have none: "map_of (rev (drop (Suc i) ts)) (fst (ts ! i)) = None"
    by (simp add: map_of_eq_None_iff)
  have "rev ts = rev (drop (Suc i) ts) @ ts ! i # rev (take i ts)"
    by (subst ts) simp
  then have "map_of (rev ts) (fst (ts ! i)) =
               map_of (rev (drop (Suc i) ts) @ ts ! i # rev (take i ts)) (fst (ts ! i))"
    by simp
  also have "\<dots> = Some (snd (ts ! i))"
    using none by (cases "ts ! i") (simp add: map_add_def)
  finally show ?thesis .
qed


text \<open>
  C2, as stated, has the value of every entry whose key does not fit installed under
  the first fitting rewrite. The loop stores it there, and a later entry stored under
  the same key replaces it: with \<open>bn1.weight\<close> before \<open>bn1.0.weight\<close> in the
  checkpoint and \<open>bn1.0.weight\<close> in the model, the loaded mapping holds the value of
  the second entry only.
\<close>

theorem load_model_later_entry_replaces:
  "\<not> fits (map_of [(''bn1.0.weight'', \<lparr>shape = [64], payload = []\<rparr>)])
          ''bn1.weight'' \<lparr>shape = [64], payload = [7]\<rparr>
   \<and> spec_target (map_of [(''bn1.0.weight'', \<lparr>shape = [64], payload = []\<rparr>)])
          ''bn1.weight'' \<lparr>shape = [64], payload = [7]\<rparr> = ''bn1.0.weight''
   \<and> remap_state_dict (map_of [(''bn1.0.weight'', \<lparr>shape = [64], payload = []\<rparr>)])
          [(''bn1.weight'', \<lparr>shape = [64], payload = [7]\<rparr>),
           (''bn1.0.weight'', \<lparr>shape = [64], payload = [9]\<rparr>)]
       = [(''bn1.0.weight'', \<lparr>shape = [64], payload = [9]\<rparr>)]
   \<and> map_of (remap_state_dict (map_of [(''bn1.0.weight'', \<lparr>shape = [64], payload = []\<rparr>)])
          [(''bn1.weight'', \<lparr>shape = [64], payload = [7]\<rparr>),
           (''bn1.0.weight'', \<lparr>shape = [64], payload = [9]\<rparr>)]) ''bn1.0.weight''
       \<noteq> Some \<lparr>shape = [64], payload = [7]\<rparr>"
  by code_simp

text \<open>
  C2, amended. The loaded mapping holds, for every entry of the checkpoint, the key the
  entry is stored under: its own key when the model holds it with an equal shape, else
  the first rewrite (a \<open>0\<close> segment inserted after \<open>bn1\<close>, \<open>bn2\<close>, \<open>bn3\<close> or after
  a numeric segment, before a normalization parameter name; tried in the order of the
  segment they follow) that the model holds with the shape of the value, else its own
  key unchanged. Under a key it holds the value of the last entry of the checkpoint
  stored under that key: the entry's own value whenever no later entry is stored under
  the same key.
\<close>

theorem load_model_loaded_mapping:
  "map_of (remap_state_dict model_state state_dict)
     = map_of (rev (map (\<lambda>kv. (loaded_key model_state kv, snd kv)) state_dict))
   \<and> fst ` set (remap_state_dict model_state state_dict)
       = loaded_key model_state ` set state_dict
   \<and> (i < length state_dict \<and>
        list_all (\<lambda>kv. loaded_key model_state kv \<noteq> loaded_key model_state (state_dict ! i))
          (drop (Suc i) state_dict) \<longrightarrow>
        map_of (remap_state_dict model_state state_dict) (loaded_key model_state (state_dict ! i))
          = Some (snd (state_dict ! i)))
   \<and> (\<not> fits model_state k v \<longrightarrow>
        loaded_key model_state (k, v)
          = (case find (\<lambda>new_key. fits model_state new_key v) (spec_rewrites k) of
               Some new_key \<Rightarrow> new_key
             | None \<Rightarrow> k))
   \<and> (fits model_state k v \<longrightarrow> loaded_key model_state (k, v) = k)"
proof -
  let ?ts = "map (\<lambda>kv. (loaded_key model_state kv, snd kv)) state_dict"
  have m: "map_of (remap_state_dict model_state state_dict) = map_of (rev ?ts)"
    by (simp add: remap_state_dict_def remap_loop_map_of)
  have "dom (map_of (remap_state_dict model_state state_dict)) = dom (map_of (rev ?ts))"
    by (simp only: m)
  then have d: "fst ` set (remap_state_dict model_state state_dict)
       = loaded_key model_state ` set state_dict"
    by (simp add: dom_map_of_conv_image_fst image_image)
  have l: "map_of (remap_state_dict model_state state_dict)
             (loaded_key model_state (state_dict ! i)) = Some (snd (state_dict ! i))"
    if "i < length state_dict"
      and "list_all (\<lambda>kv. loaded_key model_state kv \<noteq> loaded_key model_state (state_dict ! i))
             (drop (Suc i) state_dict)"
  proof -
    have "list_all (\<lambda>t. fst t \<noteq> fst (?ts ! i)) (drop (Suc i) ?ts)"
      using that by (simp add: drop_map list_all_iff)
    then have "map_of (rev ?ts) (fst (?ts ! i)) = Some (snd (?ts ! i))"
      using that(1) by (intro map_of_rev_last) simp_all
    then show ?thesis using that(1) by (simp add: m)
  qed
  show ?thesis
    using m d l by (simp add: loaded_key_def spec_target_def)
qed

theorem load_model_loaded_mapping_witness:
  "remap_state_dict
     (map_of [(''layer1.0.bn1.0.weight'', \<lparr>shape = [64], payload = []\<rparr>),
              (''head.conva.1.0.bias'', \<lparr>shape = [512], payload = []\<rparr>)])
     [(''layer1.0.bn1.weight'', \<lparr>shape = [64], payload = [1]\<rparr>),
      (''head.conva.1.bias'', \<lparr>shape = [512], payload = [2]\<rparr>),
      (''fc.weight'', \<lparr>shape = [10], payload = [3]\<rparr>)]
   = [(''layer1.0.bn1.0.weight'', \<lparr>shape = [64], payload = [1]\<rparr>),
      (''head.conva.1.0.bias'', \<lparr>shape = [512], payload = [2]\<rparr>),
      (''fc.weight'', \<lparr>shape = [10], payload = [3]\<rparr>)]
   \<and> map_of (remap_state_dict
        (map_of [(''layer1.0.bn1.0.weight'', \<lparr>shape = [64], payload = []\<rparr>),
                 (''head.conva.1.0.bias'', \<lparr>shape = [512], payload = []\<rparr>)])
        [(''layer1.0.bn1.weight'', \<lparr>shape = [64], payload = [1]\<rparr>),
         (''head.conva.1.bias'', \<lparr>shape = [512], payload = [2]\<rparr>),
         (''fc.weight'', \<lparr>shape = [10], payload = [3]\<rparr>)]) ''head.conva.1.0.bias''
     = Some \<lparr>shape = [512], payload = [2]\<rparr>"
proof -
  let ?ms = "map_of [(''layer1.0.bn1.0.weight'', \<lparr>shape = [64], payload = []\<rparr>),
                     (''head.conva.1.0.bias'', \<lparr>shape = [512], payload = []\<rparr>)]"
  let ?sd = "[(''layer1.0.bn1.weight'', \<lparr>shape = [64], payload = [1]\<rparr>),
      (''head.conva.1.bias'', \<lparr>shape = [512], payload = [2]\<rparr>),
      (''fc.weight'', \<lparr>shape = [10], payload = [3]\<rparr>)]"
  have r: "remap_state_dict ?ms ?sd
     = [(''layer1.0.bn1.0.weight'', \<lparr>shape = [64], payload = [1]\<rparr>),
        (''head.conva.1.0.bias'', \<lparr>shape = [512], payload = [2]\<rparr>),
        (''fc.weight'', \<lparr>shape = [10], payload = [3]\<rparr>)]"
    by code_simp
  have k1: "loaded_key ?ms (?sd ! 1) = ''head.conva.1.0.bias''" by code_simp
  have k2: "loaded_key ?ms (?sd ! 2) = ''fc.weight''" by code_simp
  have s: "snd (?sd ! 1) = \<lparr>shape = [512], payload = [2]\<rparr>" by simp
  have "(1 :: nat) < length ?sd" by simp
  moreover have "list_all (\<lambda>kv. loaded_key ?ms kv \<noteq> loaded_key ?ms (?sd ! 1)) (drop (Suc 1) ?sd)"
    unfolding k1 using k2 by simp
  ultimately have "map_of (remap_state_dict ?ms ?sd) (loaded_key ?ms (?sd ! 1)) = Some (snd (?sd ! 1))"
    using load_model_loaded_mapping [of ?ms ?sd 1] by blast
  then have "map_of (remap_state_dict ?ms ?sd) ''head.conva.1.0.bias''
               = Some \<lparr>shape = [512], payload = [2]\<rparr>"
    unfolding k1 s .
  then show ?thesis using r by (rule conjI [rotated])
qed

section \<open>Device lists: what parse\_devices returns\<close>

lemma parse_piece_single:
  "parse_device_piece count (dec n) = (if n < count then Inr [int n] else Inl AssertionError)"
  by (simp add: parse_device_piece_def dec_no_char not_digit_special py_int_dec)

lemma parse_piece_range:
  "parse_device_piece count (dec a @ ''-'' @ dec b) =
     (if a < b \<and> b < count then Inr [int a .. int b] else Inl AssertionError)"
proof -
  have sp: "split_on CHR ''-'' (dec a @ CHR ''-'' # dec b) = [dec a, dec b]"
    by (simp add: split_on_append split_on_no_sep dec_no_char not_digit_special)
  show ?thesis
    by (simp add: parse_device_piece_def sp dec_nonempty py_int_dec)
qed

lemma parse_piece_item:
  "parse_device_piece count (render_item it) =
     (if item_ok count it then Inr (item_devices it) else Inl AssertionError)"
  by (cases it) (simp_all only: render_item.simps item_ok.simps item_devices.simps
        parse_piece_single parse_piece_range)

lemma parse_loop_items:
  "parse_devices_loop count acc (map render_item items) =
     (if list_all (item_ok count) items then Inr (acc @ concat (map item_devices items))
      else Inl AssertionError)"
  by (induction items arbitrary: acc) (simp_all add: parse_piece_item)

lemma render_item_no_comma: "CHR '','' \<notin> set (render_item it)"
  by (cases it) (simp_all add: dec_no_char not_digit_special)

lemma render_item_last: "render_item it \<noteq> [] \<and> is_digit_char (last (render_item it))"
  using list_all_hd_last [OF dec_nonempty dec_all_digits]
  by (cases it) (simp_all add: dec_nonempty)

lemma render_not_star: "items \<noteq> [] \<Longrightarrow> \<not> endswith_star (render_devices items)"
proof -
  assume ne: "items \<noteq> []"
  have "last (map render_item items) = render_item (last items)" using ne by (simp add: last_map)
  then have "last (render_devices items) = last (render_item (last items))"
    using ne render_item_last [of "last items"] last_join_with [of "map render_item items" "'',''"]
    by (simp add: render_devices_def)
  then show ?thesis using render_item_last [of "last items"]
    by (auto simp add: endswith_star_def not_digit_special)
qed

lemma split_render:
  "items \<noteq> [] \<Longrightarrow> split_on CHR '','' (render_devices items) = map render_item items"
  unfolding render_devices_def
  by (rule split_on_join) (simp_all add: list_all_iff render_item_no_comma)

text \<open>
  C3, as stated: every range of the list has \<open>a < b\<close> and \<open>b\<close> below the device count,
  and the devices come back in order. The single integers are checked against the device
  count too, so the list \<open>3\<close> with two devices is refused although it has no range at
  all.
\<close>

theorem parse_devices_single_out_of_bounds:
  "list_all (range_ok 2) [Single 3]
   \<and> render_devices [Single 3] = ''3''
   \<and> parse_devices 2 ''3'' = Inl AssertionError
   \<and> parse_devices 2 (render_devices [Single 3]) \<noteq> Inr (concat (map item_devices [Single 3]))"
  by (simp add: render_devices_def dec.simps digit_char_def parse_devices_def endswith_star_def
        parse_device_piece_def py_int_def strip_def is_space_char_def unsigned_int_def
        is_digit_char_def digits_value_def digit_val_def)

text \<open>
  C3, amended. For a non-empty comma-separated list of decimal integers and ranges
  \<open>a-b\<close>: when every single integer is below the device count and every range has
  \<open>a < b\<close> and \<open>b\<close> below the device count, \<open>parse_devices\<close> returns the integers and
  the members of the ranges (both ends included) in the order written, duplicates kept;
  otherwise (a range with \<open>b\<close> not below the device count or without \<open>a < b\<close>, or a
  single integer not below the device count) it raises \<open>AssertionError\<close>.
\<close>

theorem parse_devices_lists:
  assumes "items \<noteq> []"
  shows "parse_devices device_count (render_devices items) =
           (if list_all (item_ok device_count) items
            then Inr (concat (map item_devices items))
            else Inl AssertionError)"
  using assms by (simp add: parse_devices_def render_not_star split_render parse_loop_items)

theorem parse_devices_lists_witness:
  "[Single 0, Span 1 3, Single 1] \<noteq> []
   \<and> render_devices [Single 0, Span 1 3, Single 1] = ''0,1-3,1''
   \<and> parse_devices 4 ''0,1-3,1'' = Inr [0, 1, 2, 3, 1]
   \<and> parse_devices 2 (render_devices [Span 0 2]) = Inl AssertionError
   \<and> parse_devices 4 (render_devices [Span 2 2]) = Inl AssertionError"
proof -
  have r: "render_devices [Single 0, Span 1 3, Single 1] = ''0,1-3,1''"
    by (simp add: render_devices_def dec.simps digit_char_def)
  have u: "[1 .. 3] = [1, 2, 3::int]" by (simp add: upto_rec1)
  have "parse_devices 4 (render_devices [Single 0, Span 1 3, Single 1]) = Inr [0, 1, 2, 3, 1]"
    using parse_devices_lists [of "[Single 0, Span 1 3, Single 1]" 4] by (simp add: u)
  then have a: "parse_devices 4 ''0,1-3,1'' = Inr [0, 1, 2, 3, 1]"
    unfolding r .
  have b: "parse_devices 2 (render_devices [Span 0 2]) = Inl AssertionError"
    using parse_devices_lists [of "[Span 0 2]" 2] by simp
  have c: "parse_devices 4 (render_devices [Span 2 2]) = Inl AssertionError"
    using parse_devices_lists [of "[Span 2 2]" 4] by simp
  show ?thesis using r a b c by simp
qed

section \<open>Video frame sampler: which frames are saved\<close>

lemma int_of_float_floor: "0 \<le> x \<Longrightarrow> int_of_float x = \<lfloor>x\<rfloor>"
  by (simp add: int_of_float_def)

lemma int_of_float_zero: "- 1 < x \<Longrightarrow> x < 1 \<Longrightarrow> int_of_float x = 0"
  unfolding int_of_float_def by (auto simp add: floor_eq_iff ceiling_eq_iff)

lemma upt_frames: "[fc ..< fc + length (frame # rest)] = fc # [Suc fc ..< Suc fc + length rest]"
  using upt_conv_Cons [of fc "fc + Suc (length rest)"] by simp

lemma multiples_block:
  assumes "0 < n"
  shows "filter (\<lambda>i. int i mod int n = 0) [k * n ..< k * n + n] = [k * n]"
proof -
  have u: "[k * n ..< k * n + n] = (k * n) # [Suc (k * n) ..< k * n + n]"
    using assms upt_conv_Cons [of "k * n" "k * n + n"] by simp
  have "filter (\<lambda>i. int i mod int n = 0) [Suc (k * n) ..< k * n + n] = []"
  proof (rule filter_False, rule ballI)
    fix i assume "i \<in> set [Suc (k * n) ..< k * n + n]"
    then have b: "k * n < i" "i < Suc k * n" by simp_all
    have "i mod n \<noteq> 0"
    proof
      assume "i mod n = 0"
      then have "n dvd i" by (simp add: mod_eq_0_iff_dvd)
      then obtain q' where "i = n * q'" by (rule dvdE)
      then have "i = q' * n" by (simp add: mult.commute)
      then obtain q where q: "i = q * n" by blast
      have "k < q" using b(1) assms unfolding q by simp
      moreover have "q < Suc k" using b(2) assms unfolding q by (simp only: mult_less_cancel2)
      ultimately show False by simp
    qed
    moreover have "int i mod int n = int (i mod n)" by (simp add: zmod_int)
    ultimately show "\<not> int i mod int n = 0" by simp
  qed
  moreover have "int (k * n) mod int n = 0" by simp
  ultimately show ?thesis unfolding u by simp
qed

lemma multiples_upto:
  assumes "0 < n"
  shows "filter (\<lambda>i. int i mod int n = 0) [0 ..< k * n] = map (\<lambda>j. j * n) [0 ..< k]"
proof (induction k)
  case 0
  then show ?case by simp
next
  case (Suc k)
  have "[0 ..< Suc k * n] = [0 ..< k * n] @ [k * n ..< k * n + n]"
    using upt_add_eq_append [of 0 "k * n" n] by (simp add: add.commute)
  then show ?case using Suc multiples_block [OF assms, of k] by simp
qed

lemma shift_frames:
  "list_all (\<lambda>i. Suc fc \<le> i) idxs \<Longrightarrow>
     map (\<lambda>(j, i). (g j, (frame # rest) ! (i - fc))) (enumerate n idxs)
   = map (\<lambda>(j, i). (g j, rest ! (i - Suc fc))) (enumerate n idxs)"
proof (induction idxs arbitrary: n)
  case Nil
  then show ?case by simp
next
  case (Cons i idxs)
  from Cons.prems have "Suc fc \<le> i" by simp
  then have "i - fc = Suc (i - Suc fc)" by simp
  then show ?case using Cons by simp
qed

lemma filter_upt_lower: "list_all (\<lambda>i. a \<le> i) (filter P [a ..< m])"
  by (simp add: list_all_iff)

text \<open>
  With a non-zero interval the loop never raises. It writes the frames whose index is a
  multiple of the interval, in order, numbering the files from the save counter.
\<close>

lemma frame_loop_saves:
  assumes "iv \<noteq> 0"
  shows "frame_loop od fn iv (int fc) sc written frames =
           (written @
              map (\<lambda>(j, i). (img_name od fn j, frames ! (i - fc)))
                (enumerate sc (filter (\<lambda>i. int i mod iv = 0) [fc ..< fc + length frames])),
            None)"
proof (induction frames arbitrary: fc sc written)
  case Nil
  then show ?case by simp
next
  case (Cons frame rest)
  define m where "m = Suc fc + length rest"
  let ?idxs = "filter (\<lambda>i. int i mod iv = 0) [Suc fc ..< m]"
  have u: "[fc ..< fc + length (frame # rest)] = fc # [Suc fc ..< m]"
    unfolding m_def by (rule upt_frames)
  have shift: "map (\<lambda>(j, i). (img_name od fn j, (frame # rest) ! (i - fc))) (enumerate n ?idxs)
             = map (\<lambda>(j, i). (img_name od fn j, rest ! (i - Suc fc))) (enumerate n ?idxs)" for n
    by (rule shift_frames) (rule filter_upt_lower)
  have step: "int fc + 1 = int (Suc fc)" by simp
  show ?case
  proof (cases "int fc mod iv = 0")
    case True
    have "frame_loop od fn iv (int fc) sc written (frame # rest) =
            frame_loop od fn iv (int (Suc fc)) (Suc sc)
              (written @ [(img_name od fn sc, frame)]) rest"
      using assms True by (simp add: step)
    also have "\<dots> = ((written @ [(img_name od fn sc, frame)]) @
              map (\<lambda>(j, i). (img_name od fn j, rest ! (i - Suc fc))) (enumerate (Suc sc) ?idxs),
            None)"
      unfolding m_def by (rule Cons.IH)
    also have "\<dots> = (written @
              map (\<lambda>(j, i). (img_name od fn j, (frame # rest) ! (i - fc)))
                (enumerate sc (filter (\<lambda>i. int i mod iv = 0) [fc ..< fc + length (frame # rest)])),
            None)"
      unfolding u using True by (simp add: shift)
    finally show ?thesis .
  next
    case False
    have "frame_loop od fn iv (int fc) sc written (frame # rest) =
            frame_loop od fn iv (int (Suc fc)) sc written rest"
      using assms False by (simp add: step)
    also have "\<dots> = (written @
              map (\<lambda>(j, i). (img_name od fn j, rest ! (i - Suc fc))) (enumerate sc ?idxs),
            None)"
      unfolding m_def by (rule Cons.IH)
    also have "\<dots> = (written @
              map (\<lambda>(j, i). (img_name od fn j, (frame # rest) ! (i - fc)))
                (enumerate sc (filter (\<lambda>i. int i mod iv = 0) [fc ..< fc + length (frame # rest)])),
            None)"
      unfolding u using False by (simp add: shift)
    finally show ?thesis .
  qed
qed

text \<open>
  The sampler on a capture whose interval is a positive number of frames: the interval is
  the floor of the \<^verbatim>\<open>float64\<close> product \<open>fps * interval_sec\<close>, no exception is raised,
  and the files written are the frames at the multiples of the interval, numbered
  0, 1, 2, ... in five digits.
\<close>

lemma extract_frames_multiples:
  assumes "is_opened cap" and "0 < cap_fps cap"
    and "1 \<le> fl64 (cap_fps cap * interval_sec)" and "\<not> overflows (cap_fps cap * interval_sec)"
  shows "int_of_float (fl64 (cap_fps cap * interval_sec)) = \<lfloor>fl64 (cap_fps cap * interval_sec)\<rfloor>
         \<and> extract_frames cap filename output_dir interval_sec =
             (map (\<lambda>(j, i). (img_name output_dir filename j, cap_frames cap ! i))
                (enumerate 0
                   (filter (\<lambda>i. int i mod \<lfloor>fl64 (cap_fps cap * interval_sec)\<rfloor> = 0)
                      [0 ..< length (cap_frames cap)])),
              None)"
proof -
  let ?x = "fl64 (cap_fps cap * interval_sec)"
  have f: "int_of_float ?x = \<lfloor>?x\<rfloor>"
    using assms by (simp add: int_of_float_floor)
  have "of_int 1 \<le> ?x" using assms(3) by simp
  then have "1 \<le> \<lfloor>?x\<rfloor>" by (simp only: le_floor_iff)
  then have nz: "\<lfloor>?x\<rfloor> \<noteq> 0" by linarith
  have "frame_loop output_dir filename \<lfloor>?x\<rfloor> 0 0 [] (cap_frames cap) =
          (map (\<lambda>(j, i). (img_name output_dir filename j, cap_frames cap ! i))
                (enumerate 0
                   (filter (\<lambda>i. int i mod \<lfloor>?x\<rfloor> = 0) [0 ..< length (cap_frames cap)])),
              None)"
    using frame_loop_saves [OF nz, of output_dir filename 0 0 "[]" "cap_frames cap"] by simp
  then show ?thesis
    using assms(1,2,4) by (simp add: extract_frames_def f)
qed

text \<open>
  A capture of exactly three intervals of frames gives three files, holding the frames
  0, \<open>n\<close> and \<open>2 n\<close>.
\<close>

lemma extract_frames_three_intervals:
  assumes "is_opened cap" and "0 < cap_fps cap"
    and "\<lfloor>fl64 (cap_fps cap * interval_sec)\<rfloor> = int n" and "0 < n"
    and "\<not> overflows (cap_fps cap * interval_sec)"
    and "length (cap_frames cap) = 3 * n"
  shows "extract_frames cap filename output_dir interval_sec =
           ([(img_name output_dir filename 0, cap_frames cap ! 0),
             (img_name output_dir filename 1, cap_frames cap ! n),
             (img_name output_dir filename 2, cap_frames cap ! (2 * n))],
            None)"
proof -
  let ?x = "fl64 (cap_fps cap * interval_sec)"
  have "1 \<le> \<lfloor>?x\<rfloor>" using assms by simp
  then have "of_int 1 \<le> ?x" by (simp only: le_floor_iff)
  then have one: "1 \<le> ?x" by simp
  have "[0 ..< 3] = [0, 1, 2::nat]" by (simp add: upt_rec)
  then have m: "filter (\<lambda>i. int i mod int n = 0) [0 ..< 3 * n] = [0, n, 2 * n]"
    using multiples_upto [OF \<open>0 < n\<close>, of 3] by simp
  have e: "enumerate 0 [0, n, 2 * n] = [(0, 0), (1, n), (2, 2 * n)]"
    by (simp add: numeral_2_eq_2)
  have "extract_frames cap filename output_dir interval_sec =
             (map (\<lambda>(j, i). (img_name output_dir filename j, cap_frames cap ! i))
                (enumerate 0 [0, n, 2 * n]), None)"
    using extract_frames_multiples [OF assms(1,2) one assms(5), of filename output_dir]
    unfolding assms(3) assms(6) m by simp
  then show ?thesis unfolding e by simp
qed

text \<open>
  C4 speaks of every capture that opens with a positive frame rate. When the frame rate
  times the interval is below one, the interval is zero frames and the sampler stops on
  the first frame with \<open>ZeroDivisionError\<close>, nothing written: here a capture of 0.1
  frames per second sampled every 5 seconds, where the claim has frame 0 saved.
\<close>

theorem extract_frames_subframe_interval:
  "extract_frames \<lparr>is_opened = True, cap_fps = 1 / 10, cap_frames = [10, 11, 12 :: nat]\<rparr>
     ''clip'' ''raw_images'' 5 = ([], Some ZeroDivisionError)"
proof -
  have h: "fl64 (1 / 10 * 5) = 1 / 2" by code_simp
  then have o: "\<not> overflows (1 / 10 * 5)" by (intro not_overflows) simp
  have z: "int_of_float (fl64 (1 / 10 * 5)) = 0" unfolding h by (simp add: int_of_float_zero)
  show ?thesis unfolding extract_frames_def using o z by (simp del: times_divide_eq_left)
qed

text \<open>
  C9, as stated, has the error for every capture that opens with a positive frame rate
  and \<open>fps * interval_sec < 1\<close>. A capture that delivers no frame returns without an
  exception, nothing written; and at 2 frames per second with an interval of \<open>-3/2\<close>
  seconds the interval is \<open>-3\<close> frames, not zero, and the frames 0 and 3 of four are
  saved.
\<close>

theorem extract_frames_no_error_below_one:
  "(0 :: rat) < 24 \<and> fl64 (24 * (1 / 100)) < 1
   \<and> extract_frames \<lparr>is_opened = True, cap_fps = 24, cap_frames = ([] :: nat list)\<rparr>
        ''clip'' ''raw_images'' (1 / 100) = ([], None)
   \<and> (0 :: rat) < 2 \<and> fl64 (2 * (- 3 / 2)) < 1
   \<and> int_of_float (fl64 (2 * (- 3 / 2))) = - 3
   \<and> extract_frames \<lparr>is_opened = True, cap_fps = 2, cap_frames = [10, 11, 12, 13 :: nat]\<rparr>
        ''clip'' ''raw_images'' (- 3 / 2)
       = ([(img_name ''raw_images'' ''clip'' 0, 10), (img_name ''raw_images'' ''clip'' 1, 13)],
          None)"
proof -
  have a: "fl64 (24 * (1 / 100)) < 1" "- 1 < fl64 (24 * (1 / 100))" by code_simp+
  then have "\<bar>fl64 (24 * (1 / 100))\<bar> < 1" by simp
  then have oa: "\<not> overflows (24 * (1 / 100))" by (rule not_overflows)
  have e: "extract_frames \<lparr>is_opened = True, cap_fps = 24, cap_frames = ([] :: nat list)\<rparr>
        ''clip'' ''raw_images'' (1 / 100) = ([], None)"
    unfolding extract_frames_def using oa by (simp del: times_divide_eq_right)
  have n: "fl64 (2 * (- 3 / 2)) = - 3" by code_simp
  have i: "int_of_float (fl64 (2 * (- 3 / 2))) = - 3"
    unfolding n by (simp add: int_of_float_def)
  have "\<bar>- 3 :: rat\<bar> < 2 ^ 1024" by simp
  then have ob: "\<not> overflows (2 * (- 3 / 2))" unfolding overflows_def n by simp
  have f: "extract_frames \<lparr>is_opened = True, cap_fps = 2, cap_frames = [10, 11, 12, 13 :: nat]\<rparr>
        ''clip'' ''raw_images'' (- 3 / 2)
       = ([(img_name ''raw_images'' ''clip'' 0, 10), (img_name ''raw_images'' ''clip'' 1, 13)],
          None)"
    unfolding extract_frames_def using ob i
    by (simp del: times_divide_eq_right mult_minus_right)
  have l: "fl64 (2 * (- 3 / 2)) < 1" unfolding n by simp
  show ?thesis using a(1) e l i f by (intro conjI) simp_all
qed

text \<open>
  C9, amended. A capture that opens and delivers at least one frame, with a frame rate
  that is not negative, sampled at an interval for which the \<^verbatim>\<open>float64\<close> product
  \<open>fps * interval_sec\<close> lies between \<open>-1\<close> and \<open>1\<close>: the interval is zero frames. With
  a positive frame rate the sampler ends with \<open>ZeroDivisionError\<close> on the first frame,
  no file written; a frame rate of zero is the one case the explicit check turns into
  \<open>RuntimeError\<close>.
\<close>

theorem extract_frames_zero_interval:
  assumes "is_opened cap" and "0 \<le> cap_fps cap" and "cap_frames cap \<noteq> []"
    and "- 1 < fl64 (cap_fps cap * interval_sec)" and "fl64 (cap_fps cap * interval_sec) < 1"
  shows "int_of_float (fl64 (cap_fps cap * interval_sec)) = 0
         \<and> extract_frames cap filename output_dir interval_sec =
             ([], Some (if cap_fps cap = 0 then RuntimeError else ZeroDivisionError))"
proof -
  have z: "int_of_float (fl64 (cap_fps cap * interval_sec)) = 0"
    using assms by (simp add: int_of_float_zero)
  have "\<bar>fl64 (cap_fps cap * interval_sec)\<bar> < 1" using assms(4,5) by simp
  then have o: "\<not> overflows (cap_fps cap * interval_sec)" by (rule not_overflows)
  obtain frame rest where "cap_frames cap = frame # rest"
    using assms(3) by (cases "cap_frames cap") auto
  then show ?thesis using assms(1) by (simp add: extract_frames_def z o)
qed

theorem extract_frames_zero_interval_witness:
  "extract_frames \<lparr>is_opened = True, cap_fps = 24, cap_frames = [''f0'', ''f1'']\<rparr>
     ''clip'' ''raw_images'' (1 / 100) = ([], Some ZeroDivisionError)
   \<and> extract_frames \<lparr>is_opened = True, cap_fps = 0, cap_frames = [''f0'', ''f1'']\<rparr>
     ''clip'' ''raw_images'' 5 = ([], Some RuntimeError)"
proof -
  let ?c = "\<lparr>is_opened = True, cap_fps = 24, cap_frames = [''f0'', ''f1'']\<rparr>"
  let ?d = "\<lparr>is_opened = True, cap_fps = 0, cap_frames = [''f0'', ''f1'']\<rparr>"
  have a: "- 1 < fl64 (24 * (1 / 100))" "fl64 (24 * (1 / 100)) < 1" by code_simp+
  have b: "- 1 < fl64 (0 * 5)" "fl64 (0 * 5) < 1" by (simp_all add: fl64_zero)
  have "extract_frames ?c ''clip'' ''raw_images'' (1 / 100) = ([], Some ZeroDivisionError)"
    using extract_frames_zero_interval [of ?c "1 / 100" "''clip''" "''raw_images''"] a
    by (simp del: times_divide_eq_right)
  moreover have "extract_frames ?d ''clip'' ''raw_images'' 5 = ([], Some RuntimeError)"
    using extract_frames_zero_interval [of ?d 5 "''clip''" "''raw_images''"] b
    by (simp del: mult_zero_left)
  ultimately show ?thesis by (rule conjI)
qed

section \<open>Wavelet/CLAHE fusion at the weights 1 and 0\<close>

lemma uint8_round_trip: "astype_uint8 (np_clip (unsigned (c :: 8 word)) 0 255) = c"
proof -
  have u: "(unsigned c :: rat) = of_nat (unat c)" by simp
  have "unat c < 2 ^ 8" using unsigned_less [of c, where 'a = nat] by simp
  then have b: "unat c \<le> 255" by simp
  then have "(of_nat (unat c) :: rat) \<le> of_nat 255" by (simp only: of_nat_le_iff)
  moreover have "(0 :: rat) \<le> of_nat (unat c)" by (rule of_nat_0_le_iff)
  ultimately have "np_clip (of_nat (unat c)) 0 255 = (of_nat (unat c) :: rat)"
    unfolding np_clip_def by (simp only: max_absorb1 min_absorb1 of_nat_numeral)
  moreover have "int_of_float (of_nat (unat c)) = int (unat c)"
    unfolding int_of_float_def by (simp only: of_nat_0_le_iff if_True floor_of_nat)
  ultimately show ?thesis unfolding u astype_uint8_def by simp
qed

lemma fl64_uint8: "fl64 (unsigned (c :: 8 word)) = unsigned c"
proof -
  have "unat c < 2 ^ 8" using unsigned_less [of c, where 'a = nat] by simp
  also have "(2 :: nat) ^ 8 < 2 ^ 53" by simp
  finally have "fl64 (of_nat (unat c)) = of_nat (unat c)" by (rule fl64_of_nat)
  then show ?thesis by simp
qed

lemma fuse_pixel_one: "fuse_pixel 1 c d = c"
  by (simp add: fuse_pixel_def fl64_zero fl64_uint8 uint8_round_trip)

lemma fuse_pixel_zero: "fuse_pixel 0 c d = d"
  by (simp add: fuse_pixel_def fl64_zero fl64_one fl64_uint8 uint8_round_trip)

lemma map2_left: "length r = length r' \<Longrightarrow> map2 (\<lambda>c d. c) r r' = r"
  by (induction r r' rule: list_induct2) simp_all

lemma map2_right: "length r = length r' \<Longrightarrow> map2 (\<lambda>c d. d) r r' = r'"
  by (induction r r' rule: list_induct2) simp_all

lemma fuse_one: "same_shape a b \<Longrightarrow> fuse 1 a b = a"
  unfolding same_shape_def fuse_def
  by (induction a b rule: list_all2_induct) (simp_all add: fuse_pixel_one [abs_def] map2_left)

lemma fuse_zero: "same_shape a b \<Longrightarrow> fuse 0 a b = b"
  unfolding same_shape_def fuse_def
  by (induction a b rule: list_all2_induct) (simp_all add: fuse_pixel_zero [abs_def] map2_right)

text \<open>
  C5. When the CLAHE branch and the cropped wavelet branch have one shape, as they have
  in the pipeline, the fused value channel at fusion weight 1 is the CLAHE result,
  whatever the wavelet branch computed, and at fusion weight 0 it is the wavelet result;
  the image returned is the one merged from that channel.
\<close>

theorem fusion_weight_extremes:
  assumes "same_shape (v_clahe_of ops img) (v_dwt_of ops img)"
  shows "v_fused_of ops 1 img = v_clahe_of ops img
         \<and> v_fused_of ops 0 img = v_dwt_of ops img
         \<and> dehaze ops 1 img =
             merge_hsv2bgr ops (fst (bgr2hsv_split ops (dcp_dehaze ops img)),
               fst (snd (bgr2hsv_split ops (dcp_dehaze ops img))), v_clahe_of ops img)
         \<and> dehaze ops 0 img =
             merge_hsv2bgr ops (fst (bgr2hsv_split ops (dcp_dehaze ops img)),
               fst (snd (bgr2hsv_split ops (dcp_dehaze ops img))), v_dwt_of ops img)"
  using assms by (simp add: v_fused_of_def dehaze_def Let_def fuse_one fuse_zero)

theorem fusion_weight_extremes_witness:
  "v_fused_of
     \<lparr>dcp_dehaze = id, bgr2hsv_split = (\<lambda>v. ([[0, 0]], [[0, 0]], v)),
      clahe = map (map (\<lambda>x. x + 1)), dwt = map (\<lambda>r. map (\<lambda>x. 2 * x) r @ [9]),
      merge_hsv2bgr = snd \<circ> snd\<rparr> 1 [[10, 200 :: 8 word]] = [[11, 201]]
   \<and> v_fused_of
     \<lparr>dcp_dehaze = id, bgr2hsv_split = (\<lambda>v. ([[0, 0]], [[0, 0]], v)),
      clahe = map (map (\<lambda>x. x + 1)), dwt = map (\<lambda>r. map (\<lambda>x. 2 * x) r @ [9]),
      merge_hsv2bgr = snd \<circ> snd\<rparr> 0 [[10, 200 :: 8 word]] = [[20, 144]]"
proof -
  let ?ops = "\<lparr>dcp_dehaze = id, bgr2hsv_split = (\<lambda>v. ([[0, 0]], [[0, 0]], v)),
      clahe = map (map (\<lambda>x. x + 1)), dwt = map (\<lambda>r. map (\<lambda>x. 2 * x) r @ [9]),
      merge_hsv2bgr = snd \<circ> snd\<rparr> :: channel fusion_ops"
  have c: "v_clahe_of ?ops [[10, 200]] = [[11, 201]]"
    by (simp add: v_clahe_of_def value_channel_def)
  have d: "v_dwt_of ?ops [[10, 200]] = [[20, 144]]"
    by (simp add: v_dwt_of_def value_channel_def crop_def shape_of_def)
  have s: "same_shape (v_clahe_of ?ops [[10, 200]]) (v_dwt_of ?ops [[10, 200]])"
    unfolding c d by (simp add: same_shape_def)
  show ?thesis
    using fusion_weight_extremes [OF s] unfolding c d by simp
qed

section \<open>Label placement: placed labels keep their distance\<close>














lemma largest_first_descending: "sorted (rev (map snd (largest_first component_sizes)))"
  by (simp add: largest_first_def rev_map [symmetric])




section \<open>Atmospheric light: the mean over the brightest dark-channel pixels\<close>












section \<open>Mask decoding: no decoder returns\<close>

lemma np_unbound: "resolve pyt_utils_globals ''np'' = Inl NameError"
  by (simp add: resolve_def pyt_utils_globals_def)

lemma render_batch_unbound:
  "render_batch pyt_utils_globals labels num_images num_classes =
     Inl (if num_images \<le> int (dim_n labels) then NameError else AssertionError)"
  by (simp add: render_batch_def np_unbound)

lemma collect_last_of_error:
  "collect last_of ps = Inl e \<longleftrightarrow> e = IndexError \<and> list_ex (\<lambda>p. p = []) ps"
proof (induction ps)
  case Nil
  then show ?case by simp
next
  case (Cons p ps)
  show ?case
  proof (cases p rule: rev_cases)
    case Nil
    then show ?thesis by (auto simp add: last_of_def py_index_def)
  next
    case (snoc qs q)
    then have "last_of p = Inr q" by (simp add: last_of_def py_index_def)
    then show ?thesis using Cons snoc by (auto split: sum.splits)
  qed
qed

text \<open>
  With \<^verbatim>\<open>numpy\<close> and \<^verbatim>\<open>PIL.Image\<close> imported under the names the functions use, a mask
  is decoded into colours.
\<close>

lemma decode_labels_with_imports:
  "decode_labels (''np'' # ''Image'' # pyt_utils_globals)
     \<lparr>dim_n = 1, dim_h = 2, dim_w = 2, at3 = (\<lambda>i j k. int (j + k))\<rparr> 1 21
   = Inr [[[(0, 0, 0), (128, 0, 0)], [(128, 0, 0), (0, 128, 0)]]]"
  by code_simp

text \<open>
  C8, as stated, has every call raise \<^verbatim>\<open>NameError\<close>. The assertion on the batch size
  comes first in \<^verbatim>\<open>decode_labels\<close>: a batch of one mask with \<open>num_images = 2\<close> raises
  \<^verbatim>\<open>AssertionError\<close>.
\<close>

theorem decode_labels_assertion_first:
  "decode_labels pyt_utils_globals
     \<lparr>dim_n = 1, dim_h = 2, dim_w = 2, at3 = (\<lambda>i j k. 0)\<rparr> 2 21 = Inl AssertionError
   \<and> decode_labels pyt_utils_globals
     \<lparr>dim_n = 1, dim_h = 2, dim_w = 2, at3 = (\<lambda>i j k. 0)\<rparr> 2 21 \<noteq> Inl NameError"
  by (simp add: decode_labels_def render_batch_def)

text \<open>
  C8, amended. In the module as it is, with neither \<^verbatim>\<open>np\<close> nor \<^verbatim>\<open>Image\<close> bound, no
  call of \<open>decode_labels\<close>, \<open>decode_predictions\<close> or \<open>inv_preprocess\<close> returns a
  batch. \<open>decode_labels\<close> and \<open>inv_preprocess\<close> raise \<^verbatim>\<open>NameError\<close> whenever the batch
  holds at least \<open>num_images\<close> entries, and \<^verbatim>\<open>AssertionError\<close> otherwise;
  \<open>decode_predictions\<close> raises \<^verbatim>\<open>NameError\<close> on a tensor and on a list of non-empty
  sequences of tensors (taking the last of an empty sequence raises \<^verbatim>\<open>IndexError\<close>
  before).
\<close>

theorem decoders_never_return:
  "decode_labels pyt_utils_globals labels num_images num_classes =
     Inl (if num_images \<le> int (dim_n labels) then NameError else AssertionError)
   \<and> decode_predictions pyt_utils_globals (Pred_tensor t) num_images num_classes = Inl NameError
   \<and> decode_predictions pyt_utils_globals (Pred_list ps) num_images num_classes =
       Inl (if list_ex (\<lambda>p. p = []) ps then IndexError else NameError)
   \<and> inv_preprocess pyt_utils_globals imgs num_images img_mean =
       Inl (if num_images \<le> int (batch imgs) then NameError else AssertionError)"
proof -
  have 1: "decode_labels pyt_utils_globals labels num_images num_classes =
     Inl (if num_images \<le> int (dim_n labels) then NameError else AssertionError)"
    by (simp add: decode_labels_def render_batch_unbound)
  have 2: "decode_predictions pyt_utils_globals (Pred_tensor t) num_images num_classes
             = Inl NameError"
    by (simp add: decode_predictions_def np_unbound)
  have 3: "decode_predictions pyt_utils_globals (Pred_list ps) num_images num_classes =
       Inl (if list_ex (\<lambda>p. p = []) ps then IndexError else NameError)"
  proof (cases "collect last_of ps")
    case (Inl e)
    then show ?thesis using collect_last_of_error [of ps e]
      by (simp add: decode_predictions_def)
  next
    case (Inr preds_list)
    then have "\<not> list_ex (\<lambda>p. p = []) ps"
      using collect_last_of_error [of ps IndexError] by simp
    then show ?thesis using Inr by (simp add: decode_predictions_def np_unbound)
  qed
  have 4: "inv_preprocess pyt_utils_globals imgs num_images img_mean =
       Inl (if num_images \<le> int (batch imgs) then NameError else AssertionError)"
    by (simp add: inv_preprocess_def np_unbound)
  show ?thesis using 1 2 3 4 by (intro conjI)
qed

theorem decoders_never_return_witness:
  "decode_labels pyt_utils_globals
     \<lparr>dim_n = 1, dim_h = 2, dim_w = 2, at3 = (\<lambda>i j k. int (j + k))\<rparr> 1 21 = Inl NameError
   \<and> inv_preprocess pyt_utils_globals
     \<lparr>batch = 1, chans = 3, rows = 1, cols = 2, at4 = (\<lambda>b c r k. 0)\<rparr> 1 [104, 116, 122]
     = Inl NameError"
  using decoders_never_return
    [of "\<lparr>dim_n = 1, dim_h = 2, dim_w = 2, at3 = (\<lambda>i j k. int (j + k))\<rparr>" 1 21 _ "[]"
        "\<lparr>batch = 1, chans = 3, rows = 1, cols = 2, at4 = (\<lambda>b c r k. 0)\<rparr>" "[104, 116, 122]"]
  by simp

section \<open>Image folder datasets: what registration checks\<close>

lemma get_image_dicts_unreadable:
  "list_all (\<lambda>f. imread f = None) files \<Longrightarrow> get_image_dicts imread files = []"
  by (induction files) simp_all

lemma found_nonempty:
  assumes "list_ex (\<lambda>e. lower (path_suffix (fst e)) \<in> set VALID_EXTS \<and> snd e) (rglob image_dir)"
  shows "found_image_files image_dir \<noteq> []"
proof -
  have "image_entries image_dir \<noteq> []"
    using assms by (auto simp add: image_entries_def list_ex_iff filter_empty_conv)
  then have "set (found_image_files image_dir) \<noteq> {}"
    by (simp add: found_image_files_def)
  then show ?thesis by auto
qed

text \<open>
  C10. Registration looks at the directory listing only: when the directory exists and
  lists at least one regular file with an image extension (and the name is new to both
  catalogs), it succeeds and stores the deferred scan over the files found, without
  decoding any of them. When later none of these files can be decoded, the scan skips
  each of them and the dataset has no record.
\<close>

theorem register_checks_extensions_only:
  assumes "dir_exists image_dir"
    and "list_ex (\<lambda>e. lower (path_suffix (fst e)) \<in> set VALID_EXTS \<and> snd e) (rglob image_dir)"
    and "datasets cat name = None" and "metadata cat name = None"
  shows "\<exists>cat'. register_image_folder_dataset cat name image_dir thing_classes = Inr cat'
           \<and> datasets cat' name = Some (found_image_files image_dir)
           \<and> found_image_files image_dir \<noteq> []
           \<and> (list_all (\<lambda>f. imread f = None) (found_image_files image_dir) \<longrightarrow>
                catalog_get cat' imread name = Inr [])"
proof -
  have ne: "found_image_files image_dir \<noteq> []" using assms(2) by (rule found_nonempty)
  define classes where
    "classes = (case thing_classes of None \<Rightarrow> COCO_CLASSES
                | Some cs \<Rightarrow> if cs \<noteq> [] then cs else COCO_CLASSES)"
  let ?cat' = "cat\<lparr>datasets := (datasets cat)(name \<mapsto> found_image_files image_dir),
                  metadata := (metadata cat)(name \<mapsto> classes)\<rparr>"
  have r: "register_image_folder_dataset cat name image_dir thing_classes = Inr ?cat'"
    using assms(1,3,4) ne
    by (simp add: register_image_folder_dataset_def catalog_register_def set_thing_classes_def
          classes_def split: option.split)
  have g: "catalog_get ?cat' imread name = Inr []"
    if "list_all (\<lambda>f. imread f = None) (found_image_files image_dir)"
    using that by (simp add: catalog_get_def get_image_dicts_unreadable)
  show ?thesis using r ne g by (intro exI [of _ ?cat']) simp
qed


theorem register_checks_extensions_only_witness:
  "(case register_image_folder_dataset \<lparr>datasets = Map.empty, metadata = Map.empty\<rparr> ''custom''
           \<lparr>dir_exists = True,
            rglob = [([''imgs'', ''sub'', ''b.PNG''], True), ([''imgs'', ''sub''], False),
                     ([''imgs'', ''a.jpg''], True), ([''imgs'', ''notes.txt''], True)]\<rparr> None of
      Inl e \<Rightarrow> False
    | Inr cat' \<Rightarrow>
        datasets cat' ''custom'' = Some [''imgs/a.jpg'', ''imgs/sub/b.PNG'']
        \<and> catalog_get cat' (\<lambda>f. None) ''custom'' = Inr [])"
proof -
  let ?dir = "\<lparr>dir_exists = True,
            rglob = [([''imgs'', ''sub'', ''b.PNG''], True), ([''imgs'', ''sub''], False),
                     ([''imgs'', ''a.jpg''], True), ([''imgs'', ''notes.txt''], True)]\<rparr>"
  let ?cat = "\<lparr>datasets = Map.empty, metadata = Map.empty\<rparr>"
  have f: "found_image_files ?dir = [''imgs/a.jpg'', ''imgs/sub/b.PNG'']" by code_simp
  have e: "list_ex (\<lambda>e. lower (path_suffix (fst e)) \<in> set VALID_EXTS \<and> snd e) (rglob ?dir)"
    by code_simp
  have "dir_exists ?dir" "datasets ?cat ''custom'' = None" "metadata ?cat ''custom'' = None"
    by simp_all
  from register_checks_extensions_only [OF this(1) e this(2,3), of None "\<lambda>f. None"]
  obtain cat' where c: "register_image_folder_dataset ?cat ''custom'' ?dir None = Inr cat'"
    "datasets cat' ''custom'' = Some (found_image_files ?dir)"
    "list_all (\<lambda>f. (None :: (nat \<times> nat) option) = None) (found_image_files ?dir) \<longrightarrow>
       catalog_get cat' (\<lambda>f. None) ''custom'' = Inr []"
    by blast
  have "catalog_get cat' (\<lambda>f. None) ''custom'' = Inr []" using c(3) by (simp add: list_all_iff)
  then show ?thesis using c(1,2) unfolding f by simp
qed

end
